theory Spec2Isabelle
  imports Complex_Main "HOL-Library.Sublist"
begin

section \<open>Values, text and the library functions the ledger relies on\<close>

text \<open>
  The ledger of \<^verbatim>\<open>mini_blockchain.py\<close> is embedded function by function.
  Python text is a list of characters read as code points 0..255, Python's unbounded
  integers are \<^typ>\<open>int\<close>, and a float is the \<^typ>\<open>real\<close> it stands for.

  Three things come from outside the repository and are parameters of the model:
  \<^item> the digest \<^verbatim>\<open>hashlib.sha256(json.dumps(d, sort_keys=True).encode()).hexdigest()\<close>
    of a dictionary \<open>d\<close>, a function \<open>H\<close> from the dictionary to text;
  \<^item> the clock \<^verbatim>\<open>time.time()\<close>, a reading \<open>now\<close> handed to each construction;
  \<^item> the builtin \<^verbatim>\<open>float(s)\<close>, a function \<open>pf\<close> that returns \<open>None\<close> where
    Python raises \<^verbatim>\<open>ValueError\<close>.
\<close>

datatype json = JNull | JInt int | JFloat real | JStr string

text \<open>
  A timestamp is a Python number: the float that the clock gives, or the integer or float
  that a loaded document holds. It is used for its truth value and as hashed content;
  zero of either kind is falsy.
\<close>

datatype number = PyInt int | PyFloat real

fun truthy :: "number \<Rightarrow> bool" where
  "truthy (PyInt n) = (n \<noteq> 0)"
| "truthy (PyFloat r) = (r \<noteq> 0)"

fun json_of_number :: "number \<Rightarrow> json" where
  "json_of_number (PyInt n) = JInt n"
| "json_of_number (PyFloat r) = JFloat r"

text \<open>
  A dictionary with text keys is a map. The digest is taken with \<^verbatim>\<open>sort_keys=True\<close>,
  so it depends on the dictionary's content and not on the order of insertion: a function
  of the map.
\<close>

type_synonym dict = "string \<rightharpoonup> json"

type_synonym digest_fn = "dict \<Rightarrow> string"

type_synonym float_fn = "string \<Rightarrow> real option"

datatype error =
    IndexError
  | ValueError
  | KeyError
  | TypeMismatch
  | InvalidDifficulty
  | InvalidInput

text \<open>\<^verbatim>\<open>s[:n]\<close>: a negative bound counts from the end.\<close>

definition py_take :: "string \<Rightarrow> int \<Rightarrow> string" where
  "py_take s n = (if 0 \<le> n then take (nat n) s else take (nat (int (length s) + n)) s)"

text \<open>\<^verbatim>\<open>s * n\<close>: empty when \<open>n \<le> 0\<close>.\<close>

definition py_repeat :: "string \<Rightarrow> int \<Rightarrow> string" where
  "py_repeat s n = concat (replicate (nat n) s)"

text \<open>\<^verbatim>\<open>sep.join(xs)\<close>.\<close>

fun py_join :: "string \<Rightarrow> string list \<Rightarrow> string" where
  "py_join sep [] = []"
| "py_join sep [x] = x"
| "py_join sep (x # y # ys) = x @ sep @ py_join sep (y # ys)"

text \<open>
  \<^verbatim>\<open>s.split(sep)\<close> for a separator: the pieces between the occurrences of \<open>sep\<close>,
  found left to right without overlap; the piece read so far is \<open>cur\<close>. Python
  rejects the empty separator; the ledger only ever splits at \<^verbatim>\<open>" | "\<close>.
\<close>

function split_from :: "string \<Rightarrow> string \<Rightarrow> string \<Rightarrow> string list" where
  "split_from sep cur [] = [cur]"
| "split_from sep cur (c # cs) =
     (if sep \<noteq> [] \<and> prefix sep (c # cs)
      then cur # split_from sep [] (drop (length sep) (c # cs))
      else split_from sep (cur @ [c]) cs)"
  by pat_completeness auto
termination
  by (relation "measure (\<lambda>(sep, cur, s). length s)") auto

definition py_split :: "string \<Rightarrow> string \<Rightarrow> string list" where
  "py_split s sep = split_from sep [] s"

text \<open>
  \<^verbatim>\<open>str.isspace\<close> on the code points below 256: tab to carriage return, the four
  separators 28..31, the space, NEL (133) and the no-break space (160).
\<close>

definition is_space :: "char \<Rightarrow> bool" where
  "is_space c = (let n = (of_char c :: nat) in
     (9 \<le> n \<and> n \<le> 13) \<or> (28 \<le> n \<and> n \<le> 32) \<or> n = 133 \<or> n = 160)"

text \<open>\<^verbatim>\<open>s.split()\<close>: the maximal runs of non-space characters.\<close>

fun words_from :: "string \<Rightarrow> string \<Rightarrow> string list" where
  "words_from cur [] = (if cur = [] then [] else [cur])"
| "words_from cur (c # cs) =
     (if is_space c
      then (if cur = [] then words_from [] cs else cur # words_from [] cs)
      else words_from (cur @ [c]) cs)"

definition py_words :: "string \<Rightarrow> string list" where
  "py_words s = words_from [] s"

text \<open>\<^verbatim>\<open>str(n)\<close> of an integer, as the f-string of the reward entry renders it.\<close>

fun digits_of :: "nat \<Rightarrow> string" where
  "digits_of n =
     (if n < 10 then [''0123456789'' ! n]
      else digits_of (n div 10) @ [''0123456789'' ! (n mod 10)])"

declare digits_of.simps [simp del]

definition str_int :: "int \<Rightarrow> string" where
  "str_int n = (if n < 0 then CHR ''-'' # digits_of (nat (- n)) else digits_of (nat n))"

section \<open>Block\<close>

record block =
  index :: int
  timestamp :: number
  data :: string
  previous_hash :: string
  nonce :: int
  hash :: string

text \<open>\<^verbatim>\<open>Block.calculate_hash\<close>: the digest of the five content fields.\<close>

definition calculate_hash :: "digest_fn \<Rightarrow> block \<Rightarrow> string" where
  "calculate_hash H b = H
     [''index'' \<mapsto> JInt (index b),
      ''timestamp'' \<mapsto> json_of_number (timestamp b),
      ''data'' \<mapsto> JStr (data b),
      ''previous_hash'' \<mapsto> JStr (previous_hash b),
      ''nonce'' \<mapsto> JInt (nonce b)]"

text \<open>
  \<^verbatim>\<open>Block.__init__\<close>. \<^verbatim>\<open>timestamp or time.time()\<close> takes the clock, a float, when
  the argument is \<^verbatim>\<open>None\<close> and also when it is zero, which is falsy.
\<close>

definition Block :: "digest_fn \<Rightarrow> real \<Rightarrow> int \<Rightarrow> string \<Rightarrow> string \<Rightarrow> number option \<Rightarrow> block" where
  "Block H now idx dat prev ts =
     (let b = \<lparr>index = idx,
               timestamp = (case ts of
                              None \<Rightarrow> PyFloat now
                            | Some t \<Rightarrow> if truthy t then t else PyFloat now),
               data = dat,
               previous_hash = prev,
               nonce = 0,
               hash = []\<rparr>
      in b\<lparr>hash := calculate_hash H b\<rparr>)"

text \<open>
  \<^verbatim>\<open>Block.mine_block\<close>. The loop tests the stored digest, and each round
  increments the counter and stores the recomputed digest. Nothing bounds the number
  of rounds, so the result is \<open>None\<close> when the loop never exits.
\<close>

definition target :: "int \<Rightarrow> string" where
  "target difficulty = py_repeat ''0'' difficulty"

partial_function (option) mine_loop :: "digest_fn \<Rightarrow> int \<Rightarrow> block \<Rightarrow> block option" where
  "mine_loop H difficulty b =
     (if py_take (hash b) difficulty \<noteq> target difficulty
      then mine_loop H difficulty
             (b\<lparr>nonce := nonce b + 1,
                hash := calculate_hash H (b\<lparr>nonce := nonce b + 1\<rparr>)\<rparr>)
      else Some b)"

declare mine_loop.simps [code]

definition mine_block :: "digest_fn \<Rightarrow> int \<Rightarrow> block \<Rightarrow> block option" where
  "mine_block H difficulty b = mine_loop H difficulty b"

text \<open>\<^verbatim>\<open>Block.to_dict\<close>.\<close>

definition to_dict :: "block \<Rightarrow> dict" where
  "to_dict b =
     [''index'' \<mapsto> JInt (index b),
      ''timestamp'' \<mapsto> json_of_number (timestamp b),
      ''data'' \<mapsto> JStr (data b),
      ''previous_hash'' \<mapsto> JStr (previous_hash b),
      ''hash'' \<mapsto> JStr (hash b),
      ''nonce'' \<mapsto> JInt (nonce b)]"

section \<open>Blockchain\<close>

record blockchain =
  chain :: "block list"
  difficulty :: int
  pending_transactions :: "string list"
  mining_reward :: int

text \<open>
  An operation that mines returns \<open>None\<close> when the search never exits,
  \<open>Some (Inl e)\<close> when Python raises \<open>e\<close>, and \<open>Some (Inr c)\<close> with the chain
  it leaves behind otherwise.
\<close>

definition create_genesis_block :: "digest_fn \<Rightarrow> real \<Rightarrow> blockchain \<Rightarrow> blockchain option" where
  "create_genesis_block H now c =
     (case mine_block H (difficulty c)
             (Block H now 0 ''Genesis Block - The beginning of BlockSim'' ''0'' None) of
        None \<Rightarrow> None
      | Some genesis_block \<Rightarrow> Some (c\<lparr>chain := chain c @ [genesis_block]\<rparr>))"

text \<open>\<^verbatim>\<open>Blockchain.__init__\<close>: no check of the difficulty is made here.\<close>

definition Blockchain :: "digest_fn \<Rightarrow> real \<Rightarrow> int \<Rightarrow> blockchain option" where
  "Blockchain H now d =
     create_genesis_block H now
       \<lparr>chain = [], difficulty = d, pending_transactions = [], mining_reward = 100\<rparr>"

text \<open>\<^verbatim>\<open>self.chain[-1]\<close> raises on an empty list.\<close>

definition get_latest_block :: "blockchain \<Rightarrow> error + block" where
  "get_latest_block c = (if chain c = [] then Inl IndexError else Inr (last (chain c)))"

definition add_transaction :: "blockchain \<Rightarrow> string \<Rightarrow> blockchain" where
  "add_transaction c transaction =
     c\<lparr>pending_transactions := pending_transactions c @ [transaction]\<rparr>"

definition reward_transaction :: "int \<Rightarrow> string \<Rightarrow> string" where
  "reward_transaction reward mining_reward_address =
     ''Mining Reward: '' @ str_int reward @ '' coins to '' @ mining_reward_address"

definition mine_pending_transactions ::
  "digest_fn \<Rightarrow> real \<Rightarrow> blockchain \<Rightarrow> string \<Rightarrow> (error + blockchain) option" where
  "mine_pending_transactions H now c mining_reward_address =
     (if pending_transactions c = [] then Some (Inr c)
      else
        let transactions =
              pending_transactions c
                @ [reward_transaction (mining_reward c) mining_reward_address];
            transaction_data = py_join '' | '' transactions
        in case get_latest_block c of
             Inl e \<Rightarrow> Some (Inl e)
           | Inr latest \<Rightarrow>
               (case mine_block H (difficulty c)
                       (Block H now (int (length (chain c))) transaction_data
                          (hash latest) None) of
                  None \<Rightarrow> None
                | Some new_block \<Rightarrow>
                    Some (Inr (c\<lparr>chain := chain c @ [new_block],
                                  pending_transactions := []\<rparr>))))"

definition add_block_direct ::
  "digest_fn \<Rightarrow> real \<Rightarrow> blockchain \<Rightarrow> string \<Rightarrow> (error + blockchain) option" where
  "add_block_direct H now c dat =
     (case get_latest_block c of
        Inl e \<Rightarrow> Some (Inl e)
      | Inr latest \<Rightarrow>
          (case mine_block H (difficulty c)
                  (Block H now (int (length (chain c))) dat (hash latest) None) of
             None \<Rightarrow> None
           | Some new_block \<Rightarrow> Some (Inr (c\<lparr>chain := chain c @ [new_block]\<rparr>))))"

text \<open>
  \<^verbatim>\<open>Blockchain.is_chain_valid\<close>: the loop runs over the positions 1 and up, with
  the block before the current one at hand. Position 0 is never the current block.
\<close>

fun valid_from :: "digest_fn \<Rightarrow> block \<Rightarrow> block list \<Rightarrow> bool" where
  "valid_from H previous_block [] = True"
| "valid_from H previous_block (current_block # rest) =
     (if hash current_block \<noteq> calculate_hash H current_block then False
      else if previous_hash current_block \<noteq> hash previous_block then False
      else valid_from H current_block rest)"

definition is_chain_valid :: "digest_fn \<Rightarrow> blockchain \<Rightarrow> bool" where
  "is_chain_valid H c = (case chain c of [] \<Rightarrow> True | b0 # rest \<Rightarrow> valid_from H b0 rest)"

text \<open>
  \<^verbatim>\<open>Blockchain.get_balance\<close>, one entry at a time. \<^verbatim>\<open>parts[5]\<close> raises when there
  are exactly five words, and \<^verbatim>\<open>float\<close> raises on a word that is no number.
  Amounts and balances are the reals that the doubles stand for and are added exactly;
  the infinities and NaN, which \<^verbatim>\<open>float\<close> also reads, are outside the model.
\<close>

definition apply_entry :: "float_fn \<Rightarrow> string \<Rightarrow> real \<Rightarrow> string \<Rightarrow> error + real" where
  "apply_entry pf address balance transaction =
     (if sublist ''sends'' transaction \<and> sublist ''to'' transaction then
        let parts = py_words transaction in
        if length parts \<ge> 5 then
          (case pf (parts ! 2) of
             None \<Rightarrow> Inl ValueError
           | Some amount \<Rightarrow>
               if length parts \<le> 5 then Inl IndexError
               else
                 let sender = parts ! 0;
                     recipient = parts ! 5;
                     balance1 = (if sender = address then balance - amount else balance);
                     balance2 = (if recipient = address then balance1 + amount else balance1)
                 in Inr balance2)
        else Inr balance
      else if sublist ''Mining Reward:'' transaction \<and> sublist address transaction then
        let parts = py_words transaction in
        if length parts \<ge> 3 then
          (case pf (parts ! 2) of
             None \<Rightarrow> Inl ValueError
           | Some amount \<Rightarrow> Inr (balance + amount))
        else Inr balance
      else Inr balance)"

fun balance_entries :: "float_fn \<Rightarrow> string \<Rightarrow> real \<Rightarrow> string list \<Rightarrow> error + real" where
  "balance_entries pf address balance [] = Inr balance"
| "balance_entries pf address balance (transaction # rest) =
     (case apply_entry pf address balance transaction of
        Inl e \<Rightarrow> Inl e
      | Inr balance' \<Rightarrow> balance_entries pf address balance' rest)"

fun balance_blocks :: "float_fn \<Rightarrow> string \<Rightarrow> real \<Rightarrow> block list \<Rightarrow> error + real" where
  "balance_blocks pf address balance [] = Inr balance"
| "balance_blocks pf address balance (b # rest) =
     (if index b = 0 then balance_blocks pf address balance rest
      else
        (case balance_entries pf address balance (py_split (data b) '' | '') of
           Inl e \<Rightarrow> Inl e
         | Inr balance' \<Rightarrow> balance_blocks pf address balance' rest))"

definition get_balance :: "float_fn \<Rightarrow> blockchain \<Rightarrow> string \<Rightarrow> error + real" where
  "get_balance pf c address = balance_blocks pf address 0 (chain c)"

text \<open>
  \<^verbatim>\<open>Blockchain.tamper_with_block\<close>. Neither branch raises: both print and return. The
  result is the first line printed, which tells the branches apart, and the chain the
  call leaves behind.
\<close>

datatype printed = TamperingWithBlock int | BlockDoesNotExist int

definition tamper_with_block :: "blockchain \<Rightarrow> int \<Rightarrow> string \<Rightarrow> printed \<times> blockchain" where
  "tamper_with_block c block_index new_data =
     (if 0 \<le> block_index \<and> block_index < int (length (chain c))
      then (TamperingWithBlock block_index,
            c\<lparr>chain := (chain c)[nat block_index :=
                     (chain c ! nat block_index)\<lparr>data := new_data\<rparr>]\<rparr>)
      else (BlockDoesNotExist block_index, c))"

text \<open>
  \<^verbatim>\<open>Blockchain.export_chain\<close>: the document written to the file. Writing it with
  \<^verbatim>\<open>json.dump\<close> and reading it back with \<^verbatim>\<open>json.load\<close> returns the same list of
  dictionaries, so the file itself is not modelled.
\<close>

definition export_chain :: "blockchain \<Rightarrow> dict list" where
  "export_chain c = map to_dict (chain c)"

section \<open>The explorer: guarded construction and loading an exported chain\<close>

record explorer =
  blockchain :: "blockchain option"

text \<open>
  What was typed at the difficulty prompt, after \<^verbatim>\<open>strip()\<close>: nothing, text that
  \<^verbatim>\<open>int()\<close> reads as a number, or text on which \<^verbatim>\<open>int()\<close> raises.
\<close>

datatype typed = Blank | Number int | NotANumber

text \<open>
  \<^verbatim>\<open>BlockchainExplorer.create_blockchain\<close>. A refusal prints its message and leaves
  the explorer as it was: the value \<open>Inl\<close> of the message's error.
\<close>

definition create_blockchain ::
  "digest_fn \<Rightarrow> real \<Rightarrow> explorer \<Rightarrow> typed \<Rightarrow> (error + explorer) option" where
  "create_blockchain H now ex inp =
     (case inp of
        NotANumber \<Rightarrow> Some (Inl InvalidInput)
      | _ \<Rightarrow>
          let d = (case inp of Number n \<Rightarrow> n | _ \<Rightarrow> 2) in
          if d < 1 \<or> d > 6 then Some (Inl InvalidDifficulty)
          else (case Blockchain H now d of
                  None \<Rightarrow> None
                | Some bc \<Rightarrow> Some (Inr (ex\<lparr>blockchain := Some bc\<rparr>))))"

text \<open>
  Reading one field of a record of the document: a missing key raises
  \<^verbatim>\<open>KeyError\<close>. Python would store a value of any type in the block; the blocks of
  this model are typed, and a value of another type is reported as \<open>TypeMismatch\<close>.
  A timestamp may be an integer, a float or \<^verbatim>\<open>null\<close>, which Python reads as
  \<^verbatim>\<open>None\<close>.
\<close>

definition get_int :: "dict \<Rightarrow> string \<Rightarrow> error + int" where
  "get_int d k = (case d k of None \<Rightarrow> Inl KeyError | Some (JInt n) \<Rightarrow> Inr n | Some _ \<Rightarrow> Inl TypeMismatch)"

definition get_str :: "dict \<Rightarrow> string \<Rightarrow> error + string" where
  "get_str d k = (case d k of None \<Rightarrow> Inl KeyError | Some (JStr s) \<Rightarrow> Inr s | Some _ \<Rightarrow> Inl TypeMismatch)"

definition get_number :: "dict \<Rightarrow> string \<Rightarrow> error + number option" where
  "get_number d k =
     (case d k of
        None \<Rightarrow> Inl KeyError
      | Some JNull \<Rightarrow> Inr None
      | Some (JInt n) \<Rightarrow> Inr (Some (PyInt n))
      | Some (JFloat r) \<Rightarrow> Inr (Some (PyFloat r))
      | Some (JStr s) \<Rightarrow> Inl TypeMismatch)"

definition bind_err :: "error + 'a \<Rightarrow> ('a \<Rightarrow> error + 'b) \<Rightarrow> error + 'b" where
  "bind_err r f = (case r of Inl e \<Rightarrow> Inl e | Inr x \<Rightarrow> f x)"

text \<open>
  The body of the loop of \<^verbatim>\<open>BlockchainExplorer.load_blockchain\<close>: the block is
  built from four fields of the record, with the record's timestamp handed to the
  constructor, and its digest and counter are then overwritten from the record.
\<close>

definition load_block :: "digest_fn \<Rightarrow> real \<Rightarrow> dict \<Rightarrow> error + block" where
  "load_block H now block_data =
     bind_err (get_int block_data ''index'') (\<lambda>i.
     bind_err (get_str block_data ''data'') (\<lambda>d.
     bind_err (get_str block_data ''previous_hash'') (\<lambda>p.
     bind_err (get_number block_data ''timestamp'') (\<lambda>t.
       let b = Block H now i d p t in
       bind_err (get_str block_data ''hash'') (\<lambda>h.
       bind_err (get_int block_data ''nonce'') (\<lambda>n.
         Inr (b\<lparr>hash := h, nonce := n\<rparr>)))))))"

text \<open>
  The loop: \<open>clock k\<close> is the reading of the clock while record \<open>k\<close> is built. An
  exception ends the loop and is caught; the blocks appended so far stay.
\<close>

fun load_blocks ::
  "digest_fn \<Rightarrow> (nat \<Rightarrow> real) \<Rightarrow> nat \<Rightarrow> dict list \<Rightarrow> block list \<Rightarrow> error option \<times> block list" where
  "load_blocks H clock k [] acc = (None, acc)"
| "load_blocks H clock k (block_data # rest) acc =
     (case load_block H (clock k) block_data of
        Inl e \<Rightarrow> (Some e, acc)
      | Inr b \<Rightarrow> load_blocks H clock (Suc k) rest (acc @ [b]))"

text \<open>
  \<^verbatim>\<open>BlockchainExplorer.load_blockchain\<close> from the decoded document on: a chain of
  difficulty 2 is constructed (its genesis block is mined and then dropped) and filled
  with the loaded blocks.
\<close>

definition load_blockchain ::
  "digest_fn \<Rightarrow> real \<Rightarrow> (nat \<Rightarrow> real) \<Rightarrow> explorer \<Rightarrow> dict list \<Rightarrow> (error option \<times> explorer) option" where
  "load_blockchain H now clock ex chain_data =
     (case Blockchain H now 2 of
        None \<Rightarrow> None
      | Some bc \<Rightarrow>
          (case load_blocks H clock 0 chain_data [] of
             (err, blocks) \<Rightarrow> Some (err, ex\<lparr>blockchain := Some (bc\<lparr>chain := blocks\<rparr>)\<rparr>)))"

section \<open>A small digest and a decimal reader for running the definitions\<close>

text \<open>
  The theorems below hold for every digest function and every reader of numbers. To run
  the definitions on concrete chains the two parameters are instantiated: by a digest of
  eight hexadecimal characters computed from a checksum of all five hashed fields, and
  by a reader that reads an unsigned decimal integer as \<^verbatim>\<open>float\<close> does and rejects
  every other word.
\<close>

definition weight :: "json option \<Rightarrow> int" where
  "weight v = (case v of
       None \<Rightarrow> 0
     | Some JNull \<Rightarrow> 0
     | Some (JInt n) \<Rightarrow> n
     | Some (JFloat r) \<Rightarrow> \<lfloor>r\<rfloor>
     | Some (JStr s) \<Rightarrow> int (length s))"

definition hex_digit :: "int \<Rightarrow> char" where
  "hex_digit k = ''0123456789abcdef'' ! nat (k mod 16)"

text \<open>
  Six copies of the checksum's lowest hexadecimal digit, then its next two digits: a
  counter that makes the checksum a multiple of 16 gives six leading zeros.
\<close>

definition demo_digest :: digest_fn where
  "demo_digest d =
     (let k = weight (d ''index'') + weight (d ''timestamp'') + weight (d ''data'')
              + weight (d ''previous_hash'') + weight (d ''nonce'');
          h = hex_digit k
      in [h, h, h, h, h, h, hex_digit (k div 16), hex_digit (k div 256)])"

definition is_digit :: "char \<Rightarrow> bool" where
  "is_digit c = (48 \<le> (of_char c :: nat) \<and> (of_char c :: nat) \<le> 57)"

definition demo_float :: float_fn where
  "demo_float s =
     (if s \<noteq> [] \<and> list_all is_digit s
      then Some (real (foldl (\<lambda>a c. 10 * a + (of_char c - 48)) 0 s))
      else None)"

section \<open>Notions used in the statements\<close>

text \<open>
  Counter \<open>n\<close> qualifies for block \<open>b\<close> at difficulty \<open>d\<close> when the digest
  recomputed with that counter passes the loop's exit test.
\<close>

definition qualifies :: "digest_fn \<Rightarrow> int \<Rightarrow> block \<Rightarrow> int \<Rightarrow> bool" where
  "qualifies H d b n = (py_take (calculate_hash H (b\<lparr>nonce := n\<rparr>)) d = target d)"

text \<open>
  The digest function is solvable at difficulty \<open>d\<close> when every block content has a
  qualifying non-negative counter; the search then returns on every block.
\<close>

definition solvable :: "digest_fn \<Rightarrow> int \<Rightarrow> bool" where
  "solvable H d = (\<forall>b. \<exists>n\<ge>0. qualifies H d b n)"

text \<open>A block as the test suite builds it, and the same block with a stale digest.\<close>

definition test_block :: block where
  "test_block = Block demo_digest 1700000000 1 ''Test transaction'' ''previous_hash_123'' None"

definition stale_block :: block where
  "stale_block =
     \<lparr>index = 1, timestamp = PyFloat 1700000000, data = ''Test transaction'',
      previous_hash = ''previous_hash_123'', nonce = 0, hash = ''0''\<rparr>"

text \<open>
  A run of \<^verbatim>\<open>add_block_direct\<close> calls, each with its payload and the reading of the
  clock at its construction, and the same run from a chain just constructed.
\<close>

fun add_blocks :: "digest_fn \<Rightarrow> blockchain \<Rightarrow> (real \<times> string) list \<Rightarrow> (error + blockchain) option" where
  "add_blocks H c [] = Some (Inr c)"
| "add_blocks H c ((now, dat) # rest) =
     (case add_block_direct H now c dat of
        None \<Rightarrow> None
      | Some (Inl e) \<Rightarrow> Some (Inl e)
      | Some (Inr c') \<Rightarrow> add_blocks H c' rest)"

definition chain_after :: "digest_fn \<Rightarrow> real \<Rightarrow> int \<Rightarrow> (real \<times> string) list \<Rightarrow> (error + blockchain) option" where
  "chain_after H now d calls =
     (case Blockchain H now d of None \<Rightarrow> None | Some c \<Rightarrow> add_blocks H c calls)"

text \<open>
  The chain that construction at difficulty 1 leaves under the demonstration digest, and
  the chain after the entry \<^verbatim>\<open>A sends 10 coins to B\<close> has been queued and the
  pending entries flushed for the address \<^verbatim>\<open>Miner\<close>.
\<close>

definition demo_genesis :: block where
  "demo_genesis =
     \<lparr>index = 0, timestamp = PyFloat 1700000000,
      data = ''Genesis Block - The beginning of BlockSim'',
      previous_hash = ''0'', nonce = 6, hash = ''00000031''\<rparr>"

definition demo_c0 :: blockchain where
  "demo_c0 =
     \<lparr>chain = [demo_genesis], difficulty = 1, pending_transactions = [],
      mining_reward = 100\<rparr>"

definition demo_block1 :: block where
  "demo_block1 =
     \<lparr>index = 1, timestamp = PyFloat 1700000001,
      data = ''A sends 10 coins to B | Mining Reward: 100 coins to Miner'',
      previous_hash = ''00000031'', nonce = 13, hash = ''00000051''\<rparr>"

definition demo_c1 :: blockchain where
  "demo_c1 =
     \<lparr>chain = [demo_genesis, demo_block1], difficulty = 1, pending_transactions = [],
      mining_reward = 100\<rparr>"

text \<open>
  Three more chains: the one construction leaves at difficulty 0, where the genesis block
  passes the loop's test without a single round; the demonstration chain after
  \<^verbatim>\<open>add_block_direct("A sends 5 to B")\<close>; and the demonstration chain after the entry
  \<^verbatim>\<open>hello\<close> has been flushed for the reward address \<^verbatim>\<open>sends\<close>.
\<close>

definition unmined_chain :: blockchain where
  "unmined_chain =
     \<lparr>chain = [\<lparr>index = 0, timestamp = PyFloat 1700000000,
                 data = ''Genesis Block - The beginning of BlockSim'',
                 previous_hash = ''0'', nonce = 0, hash = ''aaaaaa21''\<rparr>],
      difficulty = 0, pending_transactions = [], mining_reward = 100\<rparr>"

definition five_words_chain :: blockchain where
  "five_words_chain =
     \<lparr>chain = [demo_genesis,
               \<lparr>index = 1, timestamp = PyFloat 1700000001, data = ''A sends 5 to B'',
                 previous_hash = ''00000031'', nonce = 8, hash = ''00000021''\<rparr>],
      difficulty = 1, pending_transactions = [], mining_reward = 100\<rparr>"

definition sends_chain :: blockchain where
  "sends_chain =
     \<lparr>chain = [demo_genesis,
               \<lparr>index = 1, timestamp = PyFloat 1700000001,
                 data = ''hello | Mining Reward: 100 coins to sends'',
                 previous_hash = ''00000031'', nonce = 13, hash = ''00000041''\<rparr>],
      difficulty = 1, pending_transactions = [], mining_reward = 100\<rparr>"

text \<open>
  The two-block demonstration chain after block 1 has been tampered with.
\<close>

definition tampered_c1 :: blockchain where
  "tampered_c1 = demo_c1\<lparr>chain := [demo_genesis, demo_block1\<lparr>data := ''X''\<rparr>]\<rparr>"

text \<open>
  The chains that the operations of the ledger and of the explorer can build, as long as
  the clock never reads 0: construction, queueing, flushing, appending, tampering, and
  loading any document.
\<close>

inductive reachable :: "digest_fn \<Rightarrow> blockchain \<Rightarrow> bool" for H :: digest_fn where
  constructed:
    "now \<noteq> 0 \<Longrightarrow> Blockchain H now d = Some c \<Longrightarrow> reachable H c"
| queued:
    "reachable H c \<Longrightarrow> reachable H (add_transaction c t)"
| flushed:
    "reachable H c \<Longrightarrow> now \<noteq> 0 \<Longrightarrow>
     mine_pending_transactions H now c addr = Some (Inr c') \<Longrightarrow> reachable H c'"
| appended:
    "reachable H c \<Longrightarrow> now \<noteq> 0 \<Longrightarrow>
     add_block_direct H now c dat = Some (Inr c') \<Longrightarrow> reachable H c'"
| tampered:
    "reachable H c \<Longrightarrow> tamper_with_block c i dat = (m, c') \<Longrightarrow> reachable H c'"
| loaded:
    "now \<noteq> 0 \<Longrightarrow> \<forall>k. clock k \<noteq> 0 \<Longrightarrow>
     load_blockchain H now clock ex doc = Some (err, ex') \<Longrightarrow>
     blockchain ex' = Some c' \<Longrightarrow> reachable H c'"

text \<open>
  The model adds amounts as reals where the code adds doubles. The two agree when the
  operands and the sum are integers of magnitude at most \<open>2 ^ 53\<close>, which a double holds
  exactly; statements about sums are made for such values.
\<close>

definition exact_int :: "real \<Rightarrow> bool" where
  "exact_int x = (\<exists>k::int. x = real_of_int k \<and> \<bar>k\<bar> \<le> 2 ^ 53)"

section \<open>Mining\<close>

lemmas demo_eval =
  mine_block_def mine_loop.simps Block_def calculate_hash_def demo_digest_def
  weight_def hex_digit_def py_take_def target_def py_repeat_def Let_def

lemma calculate_hash_hash_upd [simp]:
  "calculate_hash H (b\<lparr>hash := h\<rparr>) = calculate_hash H b"
  by (simp add: calculate_hash_def)

lemma calculate_hash_hash_nonce_upd [simp]:
  "calculate_hash H (b\<lparr>hash := h, nonce := m\<rparr>) = calculate_hash H (b\<lparr>nonce := m\<rparr>)"
  by (simp add: calculate_hash_def)

lemma calculate_hash_same_nonce [simp]:
  "calculate_hash H (b\<lparr>nonce := nonce b\<rparr>) = calculate_hash H b"
  by (simp add: calculate_hash_def)

lemma Block_fields [simp]:
  "index (Block H now i dat p ts) = i"
  "data (Block H now i dat p ts) = dat"
  "previous_hash (Block H now i dat p ts) = p"
  "nonce (Block H now i dat p ts) = 0"
  "timestamp (Block H now i dat p None) = PyFloat now"
  "hash (Block H now i dat p ts) = calculate_hash H (Block H now i dat p ts)"
  by (simp_all add: Block_def Let_def calculate_hash_def)

text \<open>What holds of any block the loop returns: partial correctness by the loop's own
  induction rule.\<close>

lemma mine_loop_post:
  assumes "mine_loop H d b = Some b'"
  shows "py_take (hash b') d = target d \<and> index b' = index b \<and> timestamp b' = timestamp b
       \<and> data b' = data b \<and> previous_hash b' = previous_hash b \<and> nonce b \<le> nonce b'
       \<and> (hash b = calculate_hash H b \<longrightarrow> hash b' = calculate_hash H b')"
  using assms
proof (induction rule: mine_loop.raw_induct[rotated 1, consumes 1])
  case (1 f H d b b')
  show ?case
  proof (cases "py_take (hash b) d \<noteq> target d")
    case True
    let ?b1 = "b\<lparr>nonce := nonce b + 1, hash := calculate_hash H (b\<lparr>nonce := nonce b + 1\<rparr>)\<rparr>"
    from True 1(2) have "f H d ?b1 = Some b'" by simp
    from 1(1)[OF this] show ?thesis by auto
  next
    case False
    with 1(2) show ?thesis by simp
  qed
qed

text \<open>From a block whose stored digest is current, the loop stops at the first
  qualifying counter: induction on the distance to it.\<close>

lemma mine_loop_reaches:
  assumes "hash b = calculate_hash H b" "nonce b \<le> n" "qualifies H d b n"
    "\<forall>m. nonce b \<le> m \<and> m < n \<longrightarrow> \<not> qualifies H d b m"
  shows "mine_loop H d b = Some (b\<lparr>nonce := n, hash := calculate_hash H (b\<lparr>nonce := n\<rparr>)\<rparr>)"
  using assms
proof (induction "nat (n - nonce b)" arbitrary: b)
  case 0
  then have n: "n = nonce b" by simp
  with 0 have "py_take (hash b) d = target d" by (simp add: qualifies_def)
  then show ?case using 0(2) n by (subst mine_loop.simps) simp
next
  case (Suc k)
  then have lt: "nonce b < n" by linarith
  let ?b1 = "b\<lparr>nonce := nonce b + 1, hash := calculate_hash H (b\<lparr>nonce := nonce b + 1\<rparr>)\<rparr>"
  from Suc.prems(4) lt have "\<not> qualifies H d b (nonce b)" by simp
  with Suc.prems(1) have nq: "py_take (hash b) d \<noteq> target d" by (simp add: qualifies_def)
  have q1: "\<And>m. qualifies H d ?b1 m = qualifies H d b m" by (simp add: qualifies_def)
  have "mine_loop H d ?b1 = Some (?b1\<lparr>nonce := n, hash := calculate_hash H (?b1\<lparr>nonce := n\<rparr>)\<rparr>)"
  proof (rule Suc.hyps(1))
    show "k = nat (n - nonce ?b1)" using Suc.hyps(2) by simp
    show "hash ?b1 = calculate_hash H ?b1" by simp
    show "nonce ?b1 \<le> n" using lt by simp
    show "qualifies H d ?b1 n" using Suc.prems(3) q1 by simp
    show "\<forall>m. nonce ?b1 \<le> m \<and> m < n \<longrightarrow> \<not> qualifies H d ?b1 m"
      using Suc.prems(4) q1 by simp
  qed
  then show ?case using nq by (subst mine_loop.simps) simp
qed

text \<open>If some counter from the block's own on qualifies, the loop returns, at the least
  such counter.\<close>

lemma mine_loop_returns:
  assumes fresh: "hash b = calculate_hash H b" and n: "nonce b \<le> n" "qualifies H d b n"
  shows "\<exists>k. nonce b \<le> k \<and> k \<le> n \<and> qualifies H d b k
           \<and> (\<forall>m. nonce b \<le> m \<and> m < k \<longrightarrow> \<not> qualifies H d b m)
           \<and> mine_loop H d b = Some (b\<lparr>nonce := k, hash := calculate_hash H (b\<lparr>nonce := k\<rparr>)\<rparr>)"
proof -
  define j where "j = (LEAST j. qualifies H d b (nonce b + int j))"
  have ex: "qualifies H d b (nonce b + int (nat (n - nonce b)))" using n by simp
  have qj: "qualifies H d b (nonce b + int j)"
    unfolding j_def by (rule LeastI[of _ "nat (n - nonce b)"]) (rule ex)
  have "j \<le> nat (n - nonce b)"
    unfolding j_def by (rule Least_le) (rule ex)
  then have le: "nonce b + int j \<le> n" using n(1) by linarith
  have least: "\<forall>m. nonce b \<le> m \<and> m < nonce b + int j \<longrightarrow> \<not> qualifies H d b m"
  proof (intro allI impI)
    fix m assume m: "nonce b \<le> m \<and> m < nonce b + int j"
    then have "nat (m - nonce b) < j" by linarith
    then have "\<not> qualifies H d b (nonce b + int (nat (m - nonce b)))"
      unfolding j_def by (rule not_less_Least)
    with m show "\<not> qualifies H d b m" by simp
  qed
  have "mine_loop H d b
          = Some (b\<lparr>nonce := nonce b + int j,
                    hash := calculate_hash H (b\<lparr>nonce := nonce b + int j\<rparr>)\<rparr>)"
    by (rule mine_loop_reaches[OF fresh _ qj least]) simp
  with qj le least show ?thesis by (intro exI[of _ "nonce b + int j"]) simp
qed

lemma mine_loop_fresh_result:
  assumes fresh: "hash b = calculate_hash H b" and r: "mine_loop H d b = Some b'"
  shows "nonce b \<le> nonce b' \<and> qualifies H d b (nonce b')
          \<and> (\<forall>m. nonce b \<le> m \<and> m < nonce b' \<longrightarrow> \<not> qualifies H d b m)
          \<and> b' = b\<lparr>nonce := nonce b', hash := calculate_hash H (b\<lparr>nonce := nonce b'\<rparr>)\<rparr>"
proof -
  from mine_loop_post[OF r] fresh
  have p: "py_take (hash b') d = target d" "index b' = index b" "timestamp b' = timestamp b"
    "data b' = data b" "previous_hash b' = previous_hash b" "nonce b \<le> nonce b'"
    "hash b' = calculate_hash H b'" by auto
  have same: "calculate_hash H b' = calculate_hash H (b\<lparr>nonce := nonce b'\<rparr>)"
    using p by (simp add: calculate_hash_def)
  have q: "qualifies H d b (nonce b')" using p same by (simp add: qualifies_def)
  from mine_loop_returns[OF fresh p(6) q] obtain k where
    k: "nonce b \<le> k" "qualifies H d b k"
       "\<forall>m. nonce b \<le> m \<and> m < k \<longrightarrow> \<not> qualifies H d b m"
       "mine_loop H d b = Some (b\<lparr>nonce := k, hash := calculate_hash H (b\<lparr>nonce := k\<rparr>)\<rparr>)"
    by blast
  from k(4) r have b': "b' = b\<lparr>nonce := k, hash := calculate_hash H (b\<lparr>nonce := k\<rparr>)\<rparr>" by simp
  then have "nonce b' = k" by simp
  with k b' show ?thesis by simp
qed

lemma target_nonneg: "0 \<le> d \<Longrightarrow> target d = replicate (nat d) CHR ''0''"
  by (simp add: target_def py_repeat_def)

lemma py_take_nonneg: "0 \<le> d \<Longrightarrow> py_take s d = take (nat d) s"
  by (simp add: py_take_def)

text \<open>
  C3. For every block whose search counter is 0 and whose stored digest is current, as
  every block just constructed is, and every difficulty \<open>d\<close>: \<open>mine_block\<close> returns
  exactly when some non-negative counter qualifies, and after it the stored digest
  equals a fresh recomputation, passes the loop's test (for \<open>d \<ge> 0\<close>: its first \<open>d\<close>
  characters are all \<open>0\<close>), the final counter is the smallest non-negative integer
  whose recomputed digest passes, and no other field has changed.
\<close>

theorem mine_block_least_counter:
  assumes "nonce b = 0" and "hash b = calculate_hash H b"
  shows "((\<exists>b'. mine_block H d b = Some b') \<longleftrightarrow> (\<exists>n\<ge>0. qualifies H d b n)) \<and>
         (\<forall>b'. mine_block H d b = Some b' \<longrightarrow>
            hash b' = calculate_hash H b' \<and>
            py_take (hash b') d = target d \<and>
            (0 \<le> d \<longrightarrow> take (nat d) (hash b') = replicate (nat d) CHR ''0'') \<and>
            0 \<le> nonce b' \<and> qualifies H d b' (nonce b') \<and>
            (\<forall>m. 0 \<le> m \<and> m < nonce b' \<longrightarrow> \<not> qualifies H d b' m) \<and>
            b' = b\<lparr>nonce := nonce b', hash := hash b'\<rparr>)"
proof (intro conjI allI impI)
  show "(\<exists>b'. mine_block H d b = Some b') \<longleftrightarrow> (\<exists>n\<ge>0. qualifies H d b n)"
  proof
    assume "\<exists>b'. mine_block H d b = Some b'"
    then obtain b' where "mine_loop H d b = Some b'" by (auto simp: mine_block_def)
    from mine_loop_fresh_result[OF assms(2) this] assms(1)
    show "\<exists>n\<ge>0. qualifies H d b n" by auto
  next
    assume "\<exists>n\<ge>0. qualifies H d b n"
    then obtain n where "nonce b \<le> n" "qualifies H d b n" using assms(1) by auto
    from mine_loop_returns[OF assms(2) this]
    show "\<exists>b'. mine_block H d b = Some b'" by (auto simp: mine_block_def)
  qed
next
  fix b' assume "mine_block H d b = Some b'"
  then have r: "mine_loop H d b = Some b'" by (simp add: mine_block_def)
  note post = mine_loop_post[OF r]
  note res = mine_loop_fresh_result[OF assms(2) r]
  have q: "\<And>m. qualifies H d b' m = qualifies H d b m"
    using post by (simp add: qualifies_def calculate_hash_def)
  show "hash b' = calculate_hash H b'" using post assms(2) by simp
  show "py_take (hash b') d = target d" using post by simp
  show "take (nat d) (hash b') = replicate (nat d) CHR ''0''" if "0 \<le> d"
    using post that by (simp add: py_take_nonneg target_nonneg)
  show "0 \<le> nonce b'" using res assms(1) by simp
  show "qualifies H d b' (nonce b')" using res q by simp
  show "b' = b\<lparr>nonce := nonce b', hash := hash b'\<rparr>"
  proof -
    from res have eq:
      "b' = b\<lparr>nonce := nonce b', hash := calculate_hash H (b\<lparr>nonce := nonce b'\<rparr>)\<rparr>"
      by simp
    have "hash b'
            = hash (b\<lparr>nonce := nonce b', hash := calculate_hash H (b\<lparr>nonce := nonce b'\<rparr>)\<rparr>)"
      by (subst eq) (rule refl)
    then have "calculate_hash H (b\<lparr>nonce := nonce b'\<rparr>) = hash b'" by simp
    with eq show ?thesis by simp
  qed
  fix m assume "0 \<le> m \<and> m < nonce b'"
  then show "\<not> qualifies H d b' m" using res q assms(1) by simp
qed

text \<open>
  The theorem at the block of the test suite, difficulty 1: the search stops at
  counter 14, and no smaller counter qualifies.
\<close>

theorem mine_block_least_counter_witness:
  "nonce test_block = 0 \<and> hash test_block = calculate_hash demo_digest test_block
   \<and> mine_block demo_digest 1 test_block
       = Some (test_block\<lparr>nonce := 14, hash := ''00000031''\<rparr>)
   \<and> \<not> (\<exists>m. 0 \<le> m \<and> m < 14 \<and> qualifies demo_digest 1 test_block m)"
proof -
  have h1: "nonce test_block = 0" by (simp add: test_block_def)
  have h2: "hash test_block = calculate_hash demo_digest test_block"
    by (simp add: test_block_def)
  have run: "mine_block demo_digest 1 test_block
               = Some (test_block\<lparr>nonce := 14, hash := ''00000031''\<rparr>)"
    by (simp add: test_block_def demo_eval)
  have q: "\<And>m. qualifies demo_digest 1 (test_block\<lparr>nonce := 14, hash := ''00000031''\<rparr>) m
                = qualifies demo_digest 1 test_block m"
    by (simp add: qualifies_def)
  from mine_block_least_counter[OF h1 h2, of 1] run q
  have "\<not> (\<exists>m. 0 \<le> m \<and> m < 14 \<and> qualifies demo_digest 1 test_block m)"
    by simp
  with h1 h2 run show ?thesis by blast
qed

text \<open>
  Without the current digest the statement fails: a block with counter 0 whose stored
  digest is stale and already starts with \<open>0\<close> leaves the loop at once, its digest
  still stale.
\<close>

theorem mine_block_stale_counterexample:
  "nonce stale_block = 0 \<and> mine_block demo_digest 1 stale_block = Some stale_block
   \<and> hash stale_block \<noteq> calculate_hash demo_digest stale_block"
  by (simp add: stale_block_def demo_eval)

section \<open>Validation and appending\<close>

lemma valid_from_prev: "hash p = hash p' \<Longrightarrow> valid_from H p xs = valid_from H p' xs"
  by (cases xs) simp_all

lemma valid_from_append:
  "valid_from H p (xs @ [b]) =
     (valid_from H p xs \<and> hash b = calculate_hash H b \<and> previous_hash b = hash (last (p # xs)))"
  by (induction xs arbitrary: p) auto

lemma valid_from_nth:
  "valid_from H p xs \<Longrightarrow> j < length xs \<Longrightarrow> hash (xs ! j) = calculate_hash H (xs ! j)"
proof (induction xs arbitrary: p j)
  case Nil
  then show ?case by simp
next
  case (Cons x xs)
  then show ?case by (cases j) (auto split: if_splits)
qed

lemma is_chain_valid_append:
  "chain c \<noteq> [] \<Longrightarrow>
   is_chain_valid H (c\<lparr>chain := chain c @ [b]\<rparr>) =
     (is_chain_valid H c \<and> hash b = calculate_hash H b \<and> previous_hash b = hash (last (chain c)))"
  by (cases "chain c") (simp_all add: is_chain_valid_def valid_from_append)

lemma mine_block_Block:
  assumes "mine_block H d (Block H now i dat p ts) = Some nb"
  shows "hash nb = calculate_hash H nb \<and> index nb = i \<and> data nb = dat \<and> previous_hash nb = p
         \<and> timestamp nb = timestamp (Block H now i dat p ts) \<and> 0 \<le> nonce nb"
  using mine_loop_post[of H d "Block H now i dat p ts" nb] assms
  by (simp add: mine_block_def)

lemma mine_block_total:
  assumes "solvable H d"
  shows "\<exists>nb. mine_block H d (Block H now i dat p ts) = Some nb"
proof -
  from assms obtain n where "0 \<le> n" "qualifies H d (Block H now i dat p ts) n"
    unfolding solvable_def by blast
  then show ?thesis
    using mine_loop_returns[of "Block H now i dat p ts" H n d]
    by (auto simp: mine_block_def)
qed

lemma Blockchain_result:
  assumes "Blockchain H now d = Some c"
  shows "\<exists>g. c = \<lparr>chain = [g], difficulty = d, pending_transactions = [], mining_reward = 100\<rparr>
           \<and> index g = 0 \<and> previous_hash g = ''0''
           \<and> data g = ''Genesis Block - The beginning of BlockSim''
           \<and> timestamp g = PyFloat now \<and> hash g = calculate_hash H g"
  using assms mine_block_Block[of H d now 0 "''Genesis Block - The beginning of BlockSim''" "''0''" None]
  by (auto simp: Blockchain_def create_genesis_block_def split: option.splits)

lemma Blockchain_total:
  "solvable H d \<Longrightarrow> \<exists>c. Blockchain H now d = Some c"
  using mine_block_total[of H d now 0 "''Genesis Block - The beginning of BlockSim''" "''0''" None]
  by (auto simp: Blockchain_def create_genesis_block_def)

lemma add_block_direct_result:
  assumes "chain c \<noteq> []" "add_block_direct H now c dat = Some r"
  shows "\<exists>nb. r = Inr (c\<lparr>chain := chain c @ [nb]\<rparr>) \<and> hash nb = calculate_hash H nb
           \<and> previous_hash nb = hash (last (chain c)) \<and> index nb = int (length (chain c))
           \<and> data nb = dat \<and> timestamp nb = PyFloat now"
  using assms mine_block_Block[of H "difficulty c" now "int (length (chain c))" dat "hash (last (chain c))" None]
  by (auto simp: add_block_direct_def get_latest_block_def split: option.splits)

lemma add_block_direct_total:
  "solvable H (difficulty c) \<Longrightarrow> add_block_direct H now c dat \<noteq> None"
  using mine_block_total[of H "difficulty c" now "int (length (chain c))" dat "hash (last (chain c))" None]
  by (auto simp: add_block_direct_def get_latest_block_def split: option.splits)

lemma add_blocks_result:
  assumes "chain c \<noteq> []" "is_chain_valid H c" "add_blocks H c calls = Some r"
  shows "\<exists>c'. r = Inr c' \<and> length (chain c') = length (chain c) + length calls
            \<and> is_chain_valid H c' \<and> difficulty c' = difficulty c"
  using assms
proof (induction calls arbitrary: c)
  case Nil
  then show ?case by auto
next
  case (Cons call calls)
  obtain now dat where call: "call = (now, dat)" by (cases call)
  from Cons.prems(3) call obtain r1 where r1: "add_block_direct H now c dat = Some r1"
    by (auto split: option.splits)
  from add_block_direct_result[OF Cons.prems(1) r1] obtain nb where
    nb: "r1 = Inr (c\<lparr>chain := chain c @ [nb]\<rparr>)" "hash nb = calculate_hash H nb"
        "previous_hash nb = hash (last (chain c))" by blast
  let ?c1 = "c\<lparr>chain := chain c @ [nb]\<rparr>"
  have v1: "is_chain_valid H ?c1"
    using Cons.prems(1,2) nb by (simp add: is_chain_valid_append)
  have rest: "add_blocks H ?c1 calls = Some r" using Cons.prems(3) call r1 nb by simp
  from Cons.IH[OF _ v1 rest] show ?case by auto
qed

lemma add_blocks_total:
  assumes "solvable H (difficulty c)" "chain c \<noteq> []"
  shows "add_blocks H c calls \<noteq> None"
  using assms
proof (induction calls arbitrary: c)
  case Nil
  then show ?case by simp
next
  case (Cons call calls)
  obtain now dat where call: "call = (now, dat)" by (cases call)
  from add_block_direct_total[OF Cons.prems(1)] obtain r1 where
    r1: "add_block_direct H now c dat = Some r1" by blast
  from add_block_direct_result[OF Cons.prems(2) r1] obtain nb where
    nb: "r1 = Inr (c\<lparr>chain := chain c @ [nb]\<rparr>)" by blast
  have "add_blocks H (c\<lparr>chain := chain c @ [nb]\<rparr>) calls \<noteq> None"
    by (rule Cons.IH) (use Cons.prems in simp_all)
  then show ?case using call r1 nb by simp
qed

text \<open>The demonstration digest is solvable at the difficulties 0 to 6.\<close>

lemma take_six_zeros:
  assumes "n \<le> 6"
  shows "take n [c, c, c, c, c, c, x, y] = replicate n c"
proof -
  from assms consider "n = 0" | "n = 1" | "n = 2" | "n = 3" | "n = 4" | "n = 5" | "n = 6"
    by linarith
  then show ?thesis
    by cases (simp_all add: numeral_eq_Suc)
qed

lemma demo_digest_solvable:
  assumes "0 \<le> d" "d \<le> 6"
  shows "solvable demo_digest d"
  unfolding solvable_def
proof
  fix b :: block
  define w where "w = index b + weight (Some (json_of_number (timestamp b)))
                        + int (length (data b)) + int (length (previous_hash b))"
  define n where "n = (- w) mod 16"
  have n0: "0 \<le> n" by (simp add: n_def)
  have z: "(w + n) mod 16 = 0" unfolding n_def by presburger
  have "calculate_hash demo_digest (b\<lparr>nonce := n\<rparr>)
          = [CHR ''0'', CHR ''0'', CHR ''0'', CHR ''0'', CHR ''0'', CHR ''0'',
             hex_digit ((w + n) div 16), hex_digit ((w + n) div 256)]"
    using z by (simp add: calculate_hash_def demo_digest_def weight_def hex_digit_def Let_def w_def)
  then have "qualifies demo_digest d b n"
    using assms by (simp add: qualifies_def py_take_nonneg target_nonneg take_six_zeros)
  with n0 show "\<exists>n\<ge>0. qualifies demo_digest d b n" by blast
qed

text \<open>
  C5. A chain just constructed and then extended by any run of \<open>N\<close>
  \<^verbatim>\<open>add_block_direct\<close> calls holds exactly \<open>N + 1\<close> blocks and validates; the case
  \<open>N = 0\<close> is the chain right after construction. No call raises, and the run returns
  whenever the digest function is solvable at the chain's difficulty.
\<close>

theorem appended_chain_valid:
  "(\<forall>r. chain_after H now d calls = Some r \<longrightarrow>
        (\<exists>c. r = Inr c \<and> length (chain c) = length calls + 1 \<and> is_chain_valid H c))
   \<and> (solvable H d \<longrightarrow> chain_after H now d calls \<noteq> None)"
proof (intro conjI allI impI)
  fix r assume a: "chain_after H now d calls = Some r"
  then obtain c0 where c0: "Blockchain H now d = Some c0" "add_blocks H c0 calls = Some r"
    by (auto simp: chain_after_def split: option.splits)
  from Blockchain_result[OF c0(1)] obtain g where
    g: "c0 = \<lparr>chain = [g], difficulty = d, pending_transactions = [], mining_reward = 100\<rparr>" by blast
  have "chain c0 \<noteq> []" "is_chain_valid H c0" using g by (simp_all add: is_chain_valid_def)
  from add_blocks_result[OF this c0(2)] g
  show "\<exists>c. r = Inr c \<and> length (chain c) = length calls + 1 \<and> is_chain_valid H c" by auto
next
  assume s: "solvable H d"
  from Blockchain_total[OF s] obtain c0 where c0: "Blockchain H now d = Some c0" by blast
  from Blockchain_result[OF c0] have "chain c0 \<noteq> []" "difficulty c0 = d" by auto
  with s have "add_blocks H c0 calls \<noteq> None" by (intro add_blocks_total) simp_all
  with c0 show "chain_after H now d calls \<noteq> None" by (simp add: chain_after_def)
qed


text \<open>The theorem at difficulty 1 with two appended blocks, as in the export test.\<close>

theorem appended_chain_valid_witness:
  "solvable demo_digest 1 \<and>
   (\<exists>c. chain_after demo_digest 1700000000 1 [(1700000001, ''Block 1''), (1700000002, ''Block 2'')]
          = Some (Inr c)
        \<and> length (chain c) = 3 \<and> is_chain_valid demo_digest c)"
proof -
  have s: "solvable demo_digest 1" by (rule demo_digest_solvable) simp_all
  note t = appended_chain_valid[of demo_digest 1700000000 1
      "[(1700000001, ''Block 1''), (1700000002, ''Block 2'')]"]
  from t s obtain r where
    "chain_after demo_digest 1700000000 1 [(1700000001, ''Block 1''), (1700000002, ''Block 2'')] = Some r"
    by blast
  with t s show ?thesis by auto
qed

section \<open>The demonstration chains are what the operations build\<close>

lemmas chain_eval =
  Blockchain_def create_genesis_block_def add_transaction_def mine_pending_transactions_def
  add_block_direct_def get_latest_block_def reward_transaction_def str_int_def
  digits_of.simps

lemma demo_c0_built: "Blockchain demo_digest 1700000000 1 = Some demo_c0"
  by (simp add: demo_c0_def demo_genesis_def chain_eval demo_eval)

lemma demo_c1_built:
  "mine_pending_transactions demo_digest 1700000001
     (add_transaction demo_c0 ''A sends 10 coins to B'') ''Miner'' = Some (Inr demo_c1)"
  by (simp add: demo_c0_def demo_c1_def demo_genesis_def demo_block1_def chain_eval demo_eval)

section \<open>Tampering\<close>

text \<open>
  C7. \<^verbatim>\<open>tamper_with_block\<close> never fails. For an index that is not in
  \<open>[0, len(chain))\<close> it prints that the block does not exist and returns with the
  chain exactly as it was. For an index in range it overwrites the payload of that block
  and nothing else: the block's index, timestamp, previous digest, counter and stored
  digest, every other block, and the chain's difficulty, pending entries and reward
  stay as they were.
\<close>

theorem tamper_with_block_only_data:
  "(\<not> (0 \<le> i \<and> i < int (length (chain c))) \<longrightarrow>
      tamper_with_block c i d = (BlockDoesNotExist i, c)) \<and>
   (0 \<le> i \<and> i < int (length (chain c)) \<longrightarrow>
      (\<exists>c'. tamper_with_block c i d = (TamperingWithBlock i, c')
         \<and> length (chain c') = length (chain c)
         \<and> chain c' ! nat i = (chain c ! nat i)\<lparr>data := d\<rparr>
         \<and> data (chain c' ! nat i) = d
         \<and> index (chain c' ! nat i) = index (chain c ! nat i)
         \<and> timestamp (chain c' ! nat i) = timestamp (chain c ! nat i)
         \<and> previous_hash (chain c' ! nat i) = previous_hash (chain c ! nat i)
         \<and> nonce (chain c' ! nat i) = nonce (chain c ! nat i)
         \<and> hash (chain c' ! nat i) = hash (chain c ! nat i)
         \<and> (\<forall>j. j < length (chain c) \<and> j \<noteq> nat i \<longrightarrow> chain c' ! j = chain c ! j)
         \<and> difficulty c' = difficulty c
         \<and> pending_transactions c' = pending_transactions c
         \<and> mining_reward c' = mining_reward c))"
  by (auto simp: tamper_with_block_def)

text \<open>
  The theorem on the two-block demonstration chain: the index -1 is refused and leaves
  the chain as it was, and index 1 changes the payload and keeps the stored digest.
\<close>

theorem tamper_with_block_only_data_witness:
  "tamper_with_block demo_c1 (- 1) ''X'' = (BlockDoesNotExist (- 1), demo_c1)
   \<and> (\<exists>c'. tamper_with_block demo_c1 1 ''X'' = (TamperingWithBlock 1, c')
         \<and> chain c' = [demo_genesis, demo_block1\<lparr>data := ''X''\<rparr>]
         \<and> hash (chain c' ! 1) = ''00000051'')"
proof -
  have len: "length (chain demo_c1) = 2" by (simp add: demo_c1_def)
  from tamper_with_block_only_data[of "- 1" demo_c1 "''X''"]
  have b: "tamper_with_block demo_c1 (- 1) ''X'' = (BlockDoesNotExist (- 1), demo_c1)" by simp
  from tamper_with_block_only_data[of 1 demo_c1 "''X''"] len
  obtain c' where c': "tamper_with_block demo_c1 1 ''X'' = (TamperingWithBlock 1, c')"
    "hash (chain c' ! nat 1) = hash (chain demo_c1 ! nat 1)" by auto
  have "chain c' = [demo_genesis, demo_block1\<lparr>data := ''X''\<rparr>]"
    using c'(1) by (auto simp: tamper_with_block_def demo_c1_def)
  moreover have "hash (chain c' ! 1) = ''00000051''"
    using c'(2) by (simp add: demo_c1_def demo_block1_def)
  ultimately show ?thesis using b c'(1) by simp
qed

text \<open>
  An index out of range is no failure: for index 2 on the two-block chain the call
  returns, having printed its message, and the chain is the one it was given.
\<close>

theorem tamper_out_of_range_returns_counterexample:
  "\<not> (0 \<le> (2::int) \<and> (2::int) < int (length (chain demo_c1)))
   \<and> tamper_with_block demo_c1 2 ''X'' = (BlockDoesNotExist 2, demo_c1)"
  by (simp add: tamper_with_block_def demo_c1_def)

lemma valid_from_stale:
  assumes "j < length xs" "hash (xs ! j) \<noteq> calculate_hash H (xs ! j)"
  shows "\<not> valid_from H p xs"
  using assms valid_from_nth[of H p xs j] by blast

text \<open>
  C1. For every chain and every index \<open>i\<close> with \<open>1 \<le> i < len(chain)\<close>, overwriting the
  payload of block \<open>i\<close> makes validation fail whenever the digest recomputed from the
  new payload differs from the digest the block stores. Block 0 is never the block under
  test: overwriting its payload leaves the result of validation as it was.
\<close>

theorem tamper_detected:
  "(1 \<le> i \<and> i < int (length (chain c))
      \<and> calculate_hash H ((chain c ! nat i)\<lparr>data := d\<rparr>) \<noteq> hash (chain c ! nat i) \<longrightarrow>
      (\<exists>c'. tamper_with_block c i d = (TamperingWithBlock i, c') \<and> \<not> is_chain_valid H c'))
   \<and> (chain c \<noteq> [] \<longrightarrow>
      (\<exists>c'. tamper_with_block c 0 d = (TamperingWithBlock 0, c')
         \<and> is_chain_valid H c' = is_chain_valid H c))"
proof (intro conjI impI)
  assume a: "1 \<le> i \<and> i < int (length (chain c))
      \<and> calculate_hash H ((chain c ! nat i)\<lparr>data := d\<rparr>) \<noteq> hash (chain c ! nat i)"
  then obtain b0 rest where ch: "chain c = b0 # rest" by (cases "chain c") auto
  from a obtain j where j: "nat i = Suc j" by (cases "nat i") auto
  with a ch have jl: "j < length rest" by auto
  let ?b = "(rest ! j)\<lparr>data := d\<rparr>"
  let ?c' = "c\<lparr>chain := b0 # rest[j := ?b]\<rparr>"
  have t: "tamper_with_block c i d = (TamperingWithBlock i, ?c')"
    using a ch j by (simp add: tamper_with_block_def)
  have "hash ((rest[j := ?b]) ! j) \<noteq> calculate_hash H ((rest[j := ?b]) ! j)"
    using a ch j jl by auto
  then have "\<not> valid_from H b0 (rest[j := ?b])"
    using jl by (intro valid_from_stale[of j]) simp_all
  then have "\<not> is_chain_valid H ?c'" by (simp add: is_chain_valid_def)
  with t show "\<exists>c'. tamper_with_block c i d = (TamperingWithBlock i, c') \<and> \<not> is_chain_valid H c'"
    by blast
next
  assume "chain c \<noteq> []"
  then obtain b0 rest where ch: "chain c = b0 # rest" by (cases "chain c") auto
  have t: "tamper_with_block c 0 d = (TamperingWithBlock 0, c\<lparr>chain := b0\<lparr>data := d\<rparr> # rest\<rparr>)"
    using ch by (simp add: tamper_with_block_def)
  have "valid_from H (b0\<lparr>data := d\<rparr>) rest = valid_from H b0 rest"
    by (rule valid_from_prev) simp
  then have "is_chain_valid H (c\<lparr>chain := b0\<lparr>data := d\<rparr> # rest\<rparr>) = is_chain_valid H c"
    using ch by (simp add: is_chain_valid_def)
  with t show "\<exists>c'. tamper_with_block c 0 d = (TamperingWithBlock 0, c')
         \<and> is_chain_valid H c' = is_chain_valid H c"
    by blast
qed

text \<open>
  The theorem on the valid two-block demonstration chain: tampering block 1 is
  detected, tampering block 0 is not.
\<close>

theorem tamper_detected_witness:
  "is_chain_valid demo_digest demo_c1
   \<and> calculate_hash demo_digest (demo_block1\<lparr>data := ''X''\<rparr>) \<noteq> hash demo_block1
   \<and> (\<exists>c'. tamper_with_block demo_c1 1 ''X'' = (TamperingWithBlock 1, c')
         \<and> \<not> is_chain_valid demo_digest c')
   \<and> (\<exists>c'. tamper_with_block demo_c1 0 ''X'' = (TamperingWithBlock 0, c')
         \<and> is_chain_valid demo_digest c')"
proof -
  have v: "is_chain_valid demo_digest demo_c1"
    by (simp add: is_chain_valid_def demo_c1_def demo_genesis_def demo_block1_def
        calculate_hash_def demo_digest_def weight_def hex_digit_def Let_def)
  have ne: "calculate_hash demo_digest (demo_block1\<lparr>data := ''X''\<rparr>) \<noteq> hash demo_block1"
    by (simp add: demo_block1_def calculate_hash_def demo_digest_def weight_def hex_digit_def Let_def)
  have pre: "1 \<le> (1::int) \<and> 1 < int (length (chain demo_c1))
      \<and> calculate_hash demo_digest ((chain demo_c1 ! nat 1)\<lparr>data := ''X''\<rparr>)
          \<noteq> hash (chain demo_c1 ! nat 1)"
    using ne by (simp add: demo_c1_def)
  have ne0: "chain demo_c1 \<noteq> []" by (simp add: demo_c1_def)
  from tamper_detected[where i = 1 and c = demo_c1 and H = demo_digest and d = "''X''"] pre ne0 v
  show ?thesis using ne by blast
qed

text \<open>
  The statement for every index fails at index 0: the chain just constructed still
  validates after its genesis payload has been overwritten.
\<close>

theorem tamper_genesis_counterexample:
  "Blockchain demo_digest 1700000000 1 = Some demo_c0
   \<and> 0 \<le> (0::int) \<and> (0::int) < int (length (chain demo_c0))
   \<and> tamper_with_block demo_c0 0 ''X''
       = (TamperingWithBlock 0, demo_c0\<lparr>chain := [demo_genesis\<lparr>data := ''X''\<rparr>]\<rparr>)
   \<and> is_chain_valid demo_digest (demo_c0\<lparr>chain := [demo_genesis\<lparr>data := ''X''\<rparr>]\<rparr>)"
  using demo_c0_built by (simp add: tamper_with_block_def demo_c0_def is_chain_valid_def)

section \<open>The genesis block\<close>

text \<open>
  C2. Validation makes no check that is specific to the genesis block: a chain of one
  block always validates, and the result for any chain is the same whatever the index and
  the previous digest of block 0 are. That block 0 has index 0 and previous digest
  \<^verbatim>\<open>"0"\<close> is established by construction, not by validation.
\<close>

theorem validation_ignores_genesis_fields:
  "is_chain_valid H (c\<lparr>chain := [b0]\<rparr>)
   \<and> is_chain_valid H (c\<lparr>chain := b0\<lparr>index := i, previous_hash := p\<rparr> # rest\<rparr>)
       = is_chain_valid H (c\<lparr>chain := b0 # rest\<rparr>)
   \<and> (Blockchain H now d = Some c0 \<longrightarrow>
        (\<exists>g. chain c0 = [g] \<and> index g = 0 \<and> previous_hash g = ''0''))"
proof (intro conjI impI)
  show "is_chain_valid H (c\<lparr>chain := [b0]\<rparr>)" by (simp add: is_chain_valid_def)
  have "valid_from H (b0\<lparr>index := i, previous_hash := p\<rparr>) rest = valid_from H b0 rest"
    by (rule valid_from_prev) simp
  then show "is_chain_valid H (c\<lparr>chain := b0\<lparr>index := i, previous_hash := p\<rparr> # rest\<rparr>)
       = is_chain_valid H (c\<lparr>chain := b0 # rest\<rparr>)"
    by (simp add: is_chain_valid_def)
next
  assume "Blockchain H now d = Some c0"
  from Blockchain_result[OF this]
  show "\<exists>g. chain c0 = [g] \<and> index g = 0 \<and> previous_hash g = ''0''" by auto
qed

text \<open>
  The theorem at the constructed demonstration chain.
\<close>

theorem validation_ignores_genesis_fields_witness:
  "Blockchain demo_digest 1700000000 1 = Some demo_c0
   \<and> (\<exists>g. chain demo_c0 = [g] \<and> index g = 0 \<and> previous_hash g = ''0'')
   \<and> is_chain_valid demo_digest (demo_c1\<lparr>chain := [demo_genesis]\<rparr>)"
  using validation_ignores_genesis_fields[where H = demo_digest and c = demo_c1
      and ?b0.0 = demo_genesis and now = 1700000000 and d = 1 and ?c0.0 = demo_c0] demo_c0_built
  by simp

text \<open>
  A chain whose block 0 has index 7 and previous digest \<^verbatim>\<open>"abc"\<close> validates.
\<close>

theorem genesis_unchecked_counterexample:
  "index (demo_genesis\<lparr>index := 7, previous_hash := ''abc''\<rparr>) \<noteq> 0
   \<and> previous_hash (demo_genesis\<lparr>index := 7, previous_hash := ''abc''\<rparr>) \<noteq> ''0''
   \<and> is_chain_valid demo_digest
        (demo_c1\<lparr>chain := [demo_genesis\<lparr>index := 7, previous_hash := ''abc''\<rparr>, demo_block1]\<rparr>)"
  by (simp add: is_chain_valid_def demo_genesis_def demo_block1_def
      calculate_hash_def demo_digest_def weight_def hex_digit_def Let_def)

lemma unmined_chain_built: "Blockchain demo_digest 1700000000 0 = Some unmined_chain"
  by (simp add: unmined_chain_def chain_eval demo_eval)

lemma five_words_chain_built:
  "add_block_direct demo_digest 1700000001 demo_c0 ''A sends 5 to B'' = Some (Inr five_words_chain)"
  by (simp add: demo_c0_def five_words_chain_def demo_genesis_def chain_eval demo_eval)

lemma sends_chain_built:
  "mine_pending_transactions demo_digest 1700000001 (add_transaction demo_c0 ''hello'') ''sends''
     = Some (Inr sends_chain)"
  by (simp add: demo_c0_def sends_chain_def demo_genesis_def chain_eval demo_eval)

section \<open>Guarded construction\<close>

text \<open>
  C8. Construction through the explorer's \<^verbatim>\<open>create_blockchain\<close> is refused with
  \<open>InvalidDifficulty\<close> exactly when the difficulty typed is below 1 or above 6, and
  the explorer is left as it was. For a difficulty from 1 to 6 the result is that of
  \<^verbatim>\<open>Blockchain(difficulty)\<close>, stored in the explorer: a chain of one block whenever
  the digest function is solvable at that difficulty. An empty answer means difficulty
  2; text that is no number is refused as invalid input. The constructor itself makes no
  check.
\<close>

theorem create_blockchain_guard:
  "(create_blockchain H now ex (Number n) = Some (Inl InvalidDifficulty) \<longleftrightarrow> (n < 1 \<or> 6 < n))
   \<and> (1 \<le> n \<and> n \<le> 6 \<longrightarrow>
        create_blockchain H now ex (Number n)
          = map_option (\<lambda>bc. Inr (ex\<lparr>blockchain := Some bc\<rparr>)) (Blockchain H now n))
   \<and> (1 \<le> n \<and> n \<le> 6 \<and> solvable H n \<longrightarrow>
        (\<exists>bc g. create_blockchain H now ex (Number n) = Some (Inr (ex\<lparr>blockchain := Some bc\<rparr>))
           \<and> chain bc = [g] \<and> difficulty bc = n))
   \<and> create_blockchain H now ex Blank = create_blockchain H now ex (Number 2)
   \<and> create_blockchain H now ex NotANumber = Some (Inl InvalidInput)"
proof (intro conjI impI)
  show "create_blockchain H now ex (Number n) = Some (Inl InvalidDifficulty) \<longleftrightarrow> (n < 1 \<or> 6 < n)"
    by (auto simp: create_blockchain_def split: option.splits)
  show "create_blockchain H now ex (Number n)
          = map_option (\<lambda>bc. Inr (ex\<lparr>blockchain := Some bc\<rparr>)) (Blockchain H now n)"
    if "1 \<le> n \<and> n \<le> 6"
    using that by (auto simp: create_blockchain_def split: option.splits)
  show "\<exists>bc g. create_blockchain H now ex (Number n) = Some (Inr (ex\<lparr>blockchain := Some bc\<rparr>))
           \<and> chain bc = [g] \<and> difficulty bc = n"
    if a: "1 \<le> n \<and> n \<le> 6 \<and> solvable H n"
  proof -
    from a Blockchain_total[of H n now] obtain bc where bc: "Blockchain H now n = Some bc" by blast
    from Blockchain_result[OF bc] obtain g where "chain bc = [g]" "difficulty bc = n" by auto
    with a bc show ?thesis by (auto simp: create_blockchain_def)
  qed
  show "create_blockchain H now ex Blank = create_blockchain H now ex (Number 2)"
    by (simp add: create_blockchain_def)
  show "create_blockchain H now ex NotANumber = Some (Inl InvalidInput)"
    by (simp add: create_blockchain_def)
qed

text \<open>
  The theorem at the difficulties 7, 0 and 1 under the demonstration digest.
\<close>

theorem create_blockchain_guard_witness:
  "create_blockchain demo_digest 1700000000 \<lparr>blockchain = None\<rparr> (Number 7) = Some (Inl InvalidDifficulty)
   \<and> create_blockchain demo_digest 1700000000 \<lparr>blockchain = None\<rparr> (Number 0) = Some (Inl InvalidDifficulty)
   \<and> solvable demo_digest 1
   \<and> create_blockchain demo_digest 1700000000 \<lparr>blockchain = None\<rparr> (Number 1)
       = Some (Inr \<lparr>blockchain = Some demo_c0\<rparr>)"
proof -
  have s: "solvable demo_digest 1" by (rule demo_digest_solvable) simp_all
  from create_blockchain_guard[where H = demo_digest and now = 1700000000
      and ex = "\<lparr>blockchain = None\<rparr>" and n = 7]
  have a: "create_blockchain demo_digest 1700000000 \<lparr>blockchain = None\<rparr> (Number 7) = Some (Inl InvalidDifficulty)"
    by simp
  from create_blockchain_guard[where H = demo_digest and now = 1700000000
      and ex = "\<lparr>blockchain = None\<rparr>" and n = 0]
  have b: "create_blockchain demo_digest 1700000000 \<lparr>blockchain = None\<rparr> (Number 0) = Some (Inl InvalidDifficulty)"
    by simp
  from create_blockchain_guard[where H = demo_digest and now = 1700000000
      and ex = "\<lparr>blockchain = None\<rparr>" and n = 1] demo_c0_built
  have c: "create_blockchain demo_digest 1700000000 \<lparr>blockchain = None\<rparr> (Number 1)
       = Some (Inr \<lparr>blockchain = Some demo_c0\<rparr>)"
    by simp
  from a b c s show ?thesis by blast
qed

text \<open>
  \<^verbatim>\<open>Blockchain(difficulty=0)\<close> does not fail: it returns a chain whose genesis block
  was never mined.
\<close>

theorem constructor_unguarded_counterexample:
  "\<not> (1 \<le> (0::int) \<and> (0::int) \<le> 6)
   \<and> Blockchain demo_digest 1700000000 0 = Some unmined_chain
   \<and> difficulty unmined_chain = 0 \<and> length (chain unmined_chain) = 1"
  using unmined_chain_built by (simp add: unmined_chain_def)

section \<open>Balances\<close>

lemmas text_eval = py_split_def py_words_def is_space_def sublist_code Let_def

lemma scenario_split:
  "py_split ''A sends 10 coins to B | Mining Reward: 100 coins to Miner'' '' | ''
     = [''A sends 10 coins to B'', ''Mining Reward: 100 coins to Miner'']"
  by (simp add: text_eval)

lemma scenario_words:
  "py_words ''A sends 10 coins to B'' = [''A'', ''sends'', ''10'', ''coins'', ''to'', ''B'']"
  "py_words ''Mining Reward: 100 coins to Miner''
     = [''Mining'', ''Reward:'', ''100'', ''coins'', ''to'', ''Miner'']"
  by (simp_all add: text_eval)

lemma scenario_transfer:
  assumes "pf ''10'' = Some 10"
  shows "apply_entry pf a bal ''A sends 10 coins to B''
           = Inr ((if a = ''A'' then bal - 10 else bal) + (if a = ''B'' then 10 else 0))"
  using assms by (auto simp add: apply_entry_def scenario_words sublist_code)

lemma scenario_reward:
  assumes "pf ''100'' = Some 100"
  shows "apply_entry pf a bal ''Mining Reward: 100 coins to Miner''
           = Inr (if sublist a ''Mining Reward: 100 coins to Miner'' then bal + 100 else bal)"
  using assms by (simp add: apply_entry_def scenario_words sublist_code)

lemma get_balance_two_blocks:
  assumes "chain c = [g, nb]" "index g = 0" "index nb \<noteq> 0"
  shows "get_balance pf c a = balance_entries pf a 0 (py_split (data nb) '' | '')"
  using assms by (simp add: get_balance_def split: sum.splits)


lemma mine_pending_result:
  assumes "pending_transactions c \<noteq> []" "chain c \<noteq> []"
    "mine_pending_transactions H now c addr = Some r"
  shows "\<exists>nb. r = Inr (c\<lparr>chain := chain c @ [nb], pending_transactions := []\<rparr>)
           \<and> hash nb = calculate_hash H nb
           \<and> previous_hash nb = hash (last (chain c))
           \<and> index nb = int (length (chain c))
           \<and> data nb = py_join '' | ''
                 (pending_transactions c @ [reward_transaction (mining_reward c) addr])"
  using assms
    mine_block_Block[of H "difficulty c" now "int (length (chain c))"
      "py_join '' | '' (pending_transactions c @ [reward_transaction (mining_reward c) addr])"
      "hash (last (chain c))" None]
  by (auto simp: mine_pending_transactions_def get_latest_block_def Let_def split: option.splits)

lemma mine_pending_total:
  "solvable H (difficulty c) \<Longrightarrow> mine_pending_transactions H now c addr \<noteq> None"
  using mine_block_total[of H "difficulty c" now "int (length (chain c))"
      "py_join '' | '' (pending_transactions c @ [reward_transaction (mining_reward c) addr])"
      "hash (last (chain c))" None]
  by (auto simp: mine_pending_transactions_def get_latest_block_def Let_def split: option.splits)

lemma reward_transaction_100:
  "reward_transaction 100 addr = ''Mining Reward: 100 coins to '' @ addr"
  by (simp add: reward_transaction_def str_int_def digits_of.simps)

text \<open>
  C4. A chain is created at difficulty 1 (its reward amount is 100), the entry
  \<^verbatim>\<open>A sends 10 coins to B\<close> is queued and the pending entries are flushed for the
  reward address \<^verbatim>\<open>Miner\<close>. Whenever the two searches return, the chain has
  exactly 2 blocks and the balances of \<^verbatim>\<open>A\<close>, \<^verbatim>\<open>B\<close> and \<^verbatim>\<open>Miner\<close> are
  \<open>-10\<close>, \<open>10\<close> and \<open>100\<close>; and they return whenever the digest function is
  solvable at difficulty 1. The reader of numbers is assumed to read \<^verbatim>\<open>10\<close> and
  \<^verbatim>\<open>100\<close> as Python's \<^verbatim>\<open>float\<close> does.
\<close>

theorem transfer_scenario:
  assumes "pf ''10'' = Some 10" and "pf ''100'' = Some 100"
  shows "(\<forall>c0 r. Blockchain H now0 1 = Some c0
            \<and> mine_pending_transactions H now1
                  (add_transaction c0 ''A sends 10 coins to B'') ''Miner'' = Some r \<longrightarrow>
            (\<exists>c. r = Inr c \<and> length (chain c) = 2 \<and> pending_transactions c = []
               \<and> get_balance pf c ''A'' = Inr (- 10)
               \<and> get_balance pf c ''B'' = Inr 10
               \<and> get_balance pf c ''Miner'' = Inr 100))
         \<and> (solvable H 1 \<longrightarrow>
              (\<exists>c0 c. Blockchain H now0 1 = Some c0
                 \<and> mine_pending_transactions H now1
                       (add_transaction c0 ''A sends 10 coins to B'') ''Miner'' = Some (Inr c)))"
proof (intro conjI allI impI)
  fix c0 r
  assume a: "Blockchain H now0 1 = Some c0
            \<and> mine_pending_transactions H now1
                  (add_transaction c0 ''A sends 10 coins to B'') ''Miner'' = Some r"
  from Blockchain_result[of H now0 1 c0] a obtain g where
    g: "c0 = \<lparr>chain = [g], difficulty = 1, pending_transactions = [], mining_reward = 100\<rparr>"
       "index g = 0" by blast
  let ?q = "add_transaction c0 ''A sends 10 coins to B''"
  have q: "pending_transactions ?q = [''A sends 10 coins to B'']" "chain ?q = [g]"
    "mining_reward ?q = 100"
    using g by (simp_all add: add_transaction_def)
  from mine_pending_result[of ?q H now1 "''Miner''" r] a q obtain nb where
    nb: "r = Inr (?q\<lparr>chain := chain ?q @ [nb], pending_transactions := []\<rparr>)"
        "index nb = 1"
        "data nb = ''A sends 10 coins to B | Mining Reward: 100 coins to Miner''"
    by (auto simp: reward_transaction_100)
  let ?c = "?q\<lparr>chain := chain ?q @ [nb], pending_transactions := []\<rparr>"
  have ch: "chain ?c = [g, nb]" using q by simp
  have bal: "\<And>a. get_balance pf ?c a
               = balance_entries pf a 0
                   [''A sends 10 coins to B'', ''Mining Reward: 100 coins to Miner'']"
    using get_balance_two_blocks[OF ch g(2), of pf] nb by (simp add: scenario_split)
  have "get_balance pf ?c ''A'' = Inr (- 10)"
    using assms by (simp add: bal scenario_transfer scenario_reward sublist_code)
  moreover have "get_balance pf ?c ''B'' = Inr 10"
    using assms by (simp add: bal scenario_transfer scenario_reward sublist_code)
  moreover have "get_balance pf ?c ''Miner'' = Inr 100"
    using assms by (simp add: bal scenario_transfer scenario_reward sublist_code)
  ultimately show "\<exists>c. r = Inr c \<and> length (chain c) = 2 \<and> pending_transactions c = []
               \<and> get_balance pf c ''A'' = Inr (- 10)
               \<and> get_balance pf c ''B'' = Inr 10
               \<and> get_balance pf c ''Miner'' = Inr 100"
    using nb(1) ch by (intro exI[of _ ?c]) simp
next
  assume s: "solvable H 1"
  from Blockchain_total[OF s, of now0] obtain c0 where c0: "Blockchain H now0 1 = Some c0" by blast
  from Blockchain_result[OF c0] obtain g where
    g: "c0 = \<lparr>chain = [g], difficulty = 1, pending_transactions = [], mining_reward = 100\<rparr>"
    by blast
  let ?q = "add_transaction c0 ''A sends 10 coins to B''"
  have q: "pending_transactions ?q \<noteq> []" "chain ?q \<noteq> []" "difficulty ?q = 1"
    using g by (simp_all add: add_transaction_def)
  from mine_pending_total[of H ?q now1 "''Miner''"] s q obtain r where
    r: "mine_pending_transactions H now1 ?q ''Miner'' = Some r" by auto
  from mine_pending_result[OF q(1,2) r] c0 r
  show "\<exists>c0 c. Blockchain H now0 1 = Some c0
                 \<and> mine_pending_transactions H now1
                       (add_transaction c0 ''A sends 10 coins to B'') ''Miner'' = Some (Inr c)"
    by blast
qed

lemma demo_float_10: "demo_float ''10'' = Some 10"
  by (simp add: demo_float_def is_digit_def)

lemma demo_float_100: "demo_float ''100'' = Some 100"
  by (simp add: demo_float_def is_digit_def)

text \<open>
  The scenario under the demonstration digest and reader.
\<close>

theorem transfer_scenario_witness:
  "demo_float ''10'' = Some 10 \<and> demo_float ''100'' = Some 100
   \<and> Blockchain demo_digest 1700000000 1 = Some demo_c0
   \<and> mine_pending_transactions demo_digest 1700000001
         (add_transaction demo_c0 ''A sends 10 coins to B'') ''Miner'' = Some (Inr demo_c1)
   \<and> length (chain demo_c1) = 2
   \<and> get_balance demo_float demo_c1 ''A'' = Inr (- 10)
   \<and> get_balance demo_float demo_c1 ''B'' = Inr 10
   \<and> get_balance demo_float demo_c1 ''Miner'' = Inr 100"
  using transfer_scenario[OF demo_float_10 demo_float_100,
      where H = demo_digest and ?now0.0 = 1700000000 and ?now1.0 = 1700000001]
    demo_c0_built demo_c1_built demo_float_10 demo_float_100
  by auto


lemma unrecognised_entry_ignored:
  assumes "\<not> (sublist ''sends'' t \<and> sublist ''to'' t)" "\<not> sublist ''Mining Reward:'' t"
  shows "apply_entry pf a bal t = Inr bal"
  using assms by (auto simp: apply_entry_def)

lemma five_words_entry_raises:
  "apply_entry pf a bal ''A sends 5 to B''
     = (if pf ''5'' = None then Inl ValueError else Inl IndexError)"
  by (auto simp: apply_entry_def text_eval)

lemma non_number_entry_raises:
  "apply_entry demo_float a bal ''A sends lots of coins to B'' = Inl ValueError"
  by (simp add: apply_entry_def text_eval demo_float_def is_digit_def)

text \<open>
  C6. Balance derivation is not total. On the chain that
  \<^verbatim>\<open>add_block_direct("A sends 5 to B")\<close> leaves, \<^verbatim>\<open>get_balance\<close> raises
  \<^verbatim>\<open>IndexError\<close> for every address: the entry has the words \<^verbatim>\<open>sends\<close> and
  \<^verbatim>\<open>to\<close> and exactly five words, so it passes the guard \<^verbatim>\<open>len(parts) >= 5\<close> and
  \<^verbatim>\<open>parts[5]\<close> is read. The lemmas before the theorem show that entries of neither
  shape are ignored, that the five-word entry raises under every reader of numbers, and
  that a third word that is no number raises \<^verbatim>\<open>ValueError\<close>.
\<close>

theorem get_balance_raises_index_error:
  "add_block_direct demo_digest 1700000001 demo_c0 ''A sends 5 to B'' = Some (Inr five_words_chain)
   \<and> demo_float ''5'' = Some 5
   \<and> get_balance demo_float five_words_chain ''A'' = Inl IndexError
   \<and> get_balance demo_float five_words_chain ''Miner'' = Inl IndexError"
proof -
  have f: "demo_float ''5'' = Some 5" by (simp add: demo_float_def is_digit_def)
  have sp: "py_split ''A sends 5 to B'' '' | '' = [''A sends 5 to B'']" by (simp add: text_eval)
  have "\<And>a. get_balance demo_float five_words_chain a = Inl IndexError"
    using f by (simp add: get_balance_def five_words_chain_def demo_genesis_def sp
        five_words_entry_raises)
  with f five_words_chain_built show ?thesis by simp
qed

lemma digits_of_chars: "set (digits_of n) \<subseteq> set ''0123456789''"
proof (induction n rule: digits_of.induct)
  case (1 n)
  have d: "\<And>k. k < 10 \<Longrightarrow> ''0123456789'' ! k \<in> set ''0123456789''"
    by (rule nth_mem) simp
  show ?case
  proof (cases "n < 10")
    case True
    then show ?thesis using d[of n] by (subst digits_of.simps) simp
  next
    case False
    have "n mod 10 < 10" by simp
    from d[OF this] 1[OF False] False show ?thesis
      by (subst digits_of.simps) simp
  qed
qed

lemma digits_of_nonempty: "digits_of n \<noteq> []"
  by (subst digits_of.simps) simp

lemma str_int_chars: "set (str_int n) \<subseteq> set ''-0123456789''"
proof (cases "n < 0")
  case True
  have "set (digits_of (nat (- n))) \<subseteq> set ''-0123456789''"
    by (rule subset_trans[OF digits_of_chars]) simp
  with True show ?thesis by (simp add: str_int_def)
next
  case False
  have "set (digits_of (nat n)) \<subseteq> set ''-0123456789''"
    by (rule subset_trans[OF digits_of_chars]) simp
  with False show ?thesis by (simp add: str_int_def)
qed

lemma str_int_nonempty: "str_int n \<noteq> []"
  by (simp add: str_int_def digits_of_nonempty)

lemma sublist_skip:
  assumes "x \<notin> set xs"
  shows "sublist (x # p) (xs @ ys) = sublist (x # p) ys"
  using assms by (induction xs) (simp_all add: sublist_Cons_right)

lemma words_from_nonspace:
  assumes "\<forall>c\<in>set xs. \<not> is_space c"
  shows "words_from cur (xs @ ys) = words_from (cur @ xs) ys"
  using assms by (induction xs arbitrary: cur) simp_all

lemma reward_sends:
  "sublist ''sends'' (reward_transaction R addr) = sublist ''sends'' addr"
proof -
  have no_s: "CHR ''s'' \<notin> set (str_int R)" using str_int_chars[of R] by auto
  have "sublist ''sends'' (reward_transaction R addr)
          = sublist ''sends'' (str_int R @ '' coins to '' @ addr)"
    by (simp add: reward_transaction_def sublist_Cons_right)
  also have "\<dots> = sublist ''sends'' ('' coins to '' @ addr)"
    by (rule sublist_skip[OF no_s])
  also have "\<dots> = sublist ''sends'' addr"
    by (simp add: sublist_Cons_right)
  finally show ?thesis .
qed

lemma reward_words:
  "py_words (reward_transaction R addr)
     = ''Mining'' # ''Reward:'' # str_int R # ''coins'' # ''to'' # py_words addr"
proof -
  have ns: "\<forall>c\<in>set (str_int R). \<not> is_space c"
    using str_int_chars[of R] by (auto simp: is_space_def)
  have "py_words (reward_transaction R addr)
          = ''Mining'' # ''Reward:'' # words_from [] (str_int R @ '' coins to '' @ addr)"
    by (simp add: reward_transaction_def py_words_def is_space_def)
  also have "words_from [] (str_int R @ '' coins to '' @ addr)
          = words_from (str_int R) ('' coins to '' @ addr)"
    using words_from_nonspace[OF ns, of "[]"] by simp
  also have "\<dots> = str_int R # ''coins'' # ''to'' # py_words addr"
    using str_int_nonempty[of R] by (simp add: py_words_def is_space_def)
  finally show ?thesis .
qed

lemma reward_marker: "sublist ''Mining Reward:'' (reward_transaction R addr)"
proof -
  have "reward_transaction R addr
          = ''Mining Reward:'' @ ('' '' @ str_int R @ '' coins to '' @ addr)"
    by (simp add: reward_transaction_def)
  then show ?thesis by (simp only: sublist_append_rightI)
qed

lemma reward_names_Mining: "sublist ''Mining'' (reward_transaction R addr)"
proof -
  have "reward_transaction R addr
          = ''Mining'' @ ('' Reward: '' @ str_int R @ '' coins to '' @ addr)"
    by (simp add: reward_transaction_def)
  then show ?thesis by (simp only: sublist_append_rightI)
qed

text \<open>
  Splitting a joined payload gives the entries back when none of them contains the
  character \<^verbatim>\<open>|\<close>; the payload of a flushed block then splits into the pending
  entries followed by the reward entry.
\<close>

lemma split_from_last:
  assumes "CHR ''|'' \<notin> set x"
  shows "split_from '' | '' cur x = [cur @ x]"
  using assms
proof (induction x arbitrary: cur)
  case Nil
  then show ?case by simp
next
  case (Cons c x)
  then have "\<not> prefix '' | '' (c # x)" by (cases x) auto
  with Cons show ?case by simp
qed

lemma split_from_piece:
  assumes "CHR ''|'' \<notin> set x"
  shows "split_from '' | '' cur (x @ CHR '' '' # CHR ''|'' # CHR '' '' # rest)
           = (cur @ x) # split_from '' | '' [] rest"
  using assms
proof (induction x arbitrary: cur)
  case Nil
  then show ?case by simp
next
  case (Cons c x)
  then have "\<not> prefix '' | '' (c # x @ CHR '' '' # CHR ''|'' # CHR '' '' # rest)"
    by (cases x) auto
  with Cons show ?case by simp
qed

lemma split_join:
  assumes "xs \<noteq> []" "\<forall>x\<in>set xs. CHR ''|'' \<notin> set x"
  shows "py_split (py_join '' | '' xs) '' | '' = xs"
  using assms
proof (induction xs)
  case Nil
  then show ?case by simp
next
  case (Cons x xs)
  show ?case
  proof (cases xs)
    case Nil
    with Cons.prems show ?thesis by (simp add: py_split_def split_from_last)
  next
    case (Cons y ys)
    with Cons.IH Cons.prems have "split_from '' | '' [] (py_join '' | '' (y # ys)) = y # ys"
      by (simp add: py_split_def)
    with Cons Cons.prems show ?thesis
      by (simp add: py_split_def split_from_piece del: split_from.simps)
  qed
qed

lemma reward_no_bar:
  assumes "CHR ''|'' \<notin> set addr"
  shows "CHR ''|'' \<notin> set (reward_transaction R addr)"
  using assms str_int_chars[of R] by (auto simp: reward_transaction_def)

lemma balance_entries_append:
  "balance_entries pf a bal (xs @ ys)
     = (case balance_entries pf a bal xs of
          Inl e \<Rightarrow> Inl e
        | Inr b \<Rightarrow> balance_entries pf a b ys)"
  by (induction xs arbitrary: bal) (simp_all split: sum.splits)

lemma balance_blocks_append:
  "balance_blocks pf a bal (xs @ ys)
     = (case balance_blocks pf a bal xs of
          Inl e \<Rightarrow> Inl e
        | Inr b \<Rightarrow> balance_blocks pf a b ys)"
  by (induction xs arbitrary: bal) (simp_all split: sum.splits)

lemma reward_entry_credit:
  assumes "\<not> sublist ''sends'' addr" "sublist a (reward_transaction R addr)"
    "pf (str_int R) = Some (real_of_int R)"
  shows "apply_entry pf a bal (reward_transaction R addr) = Inr (bal + real_of_int R)"
  using assms reward_marker[of R addr]
  by (simp add: apply_entry_def reward_sends reward_words)


lemma flushed_block:
  assumes "mine_pending_transactions H now c addr = Some (Inr c')" "pending_transactions c \<noteq> []"
  shows "\<exists>nb. chain c' = chain c @ [nb] \<and> chain c \<noteq> [] \<and> index nb = int (length (chain c))
           \<and> data nb = py_join '' | ''
                 (pending_transactions c @ [reward_transaction (mining_reward c) addr])"
proof -
  from assms have ne: "chain c \<noteq> []"
    by (auto simp: mine_pending_transactions_def get_latest_block_def Let_def split: if_splits)
  from mine_pending_result[OF assms(2) ne assms(1)] ne show ?thesis by auto
qed

lemma flushed_entries:
  assumes "mine_pending_transactions H now c addr = Some (Inr c')" "pending_transactions c \<noteq> []"
    "\<forall>e\<in>set (pending_transactions c). CHR ''|'' \<notin> set e" "CHR ''|'' \<notin> set addr"
  shows "py_split (data (last (chain c'))) '' | ''
           = pending_transactions c @ [reward_transaction (mining_reward c) addr]"
    and "get_balance pf c' a
        = (case get_balance pf c a of
             Inl e \<Rightarrow> Inl e
           | Inr b0 \<Rightarrow>
               (case balance_entries pf a b0 (pending_transactions c) of
                  Inl e \<Rightarrow> Inl e
                | Inr b1 \<Rightarrow> apply_entry pf a b1 (reward_transaction (mining_reward c) addr)))"
proof -
  let ?es = "pending_transactions c @ [reward_transaction (mining_reward c) addr]"
  from flushed_block[OF assms(1,2)] obtain nb where
    nb: "chain c' = chain c @ [nb]" "chain c \<noteq> []" "index nb = int (length (chain c))"
        "data nb = py_join '' | '' ?es" by blast
  have "\<forall>x\<in>set ?es. CHR ''|'' \<notin> set x"
    using assms(3,4) reward_no_bar[of addr "mining_reward c"] by auto
  then have sp: "py_split (py_join '' | '' ?es) '' | '' = ?es"
    by (intro split_join) simp_all
  with nb show "py_split (data (last (chain c'))) '' | '' = ?es" by simp
  have idx: "index nb \<noteq> 0" using nb(2,3) by simp
  show "get_balance pf c' a
        = (case get_balance pf c a of
             Inl e \<Rightarrow> Inl e
           | Inr b0 \<Rightarrow>
               (case balance_entries pf a b0 (pending_transactions c) of
                  Inl e \<Rightarrow> Inl e
                | Inr b1 \<Rightarrow> apply_entry pf a b1 (reward_transaction (mining_reward c) addr)))"
    using idx nb(4) sp
    by (simp add: get_balance_def nb(1) balance_blocks_append balance_entries_append
        split: sum.splits)
qed

text \<open>
  C10. An entry that contains \<^verbatim>\<open>Mining Reward:\<close>, is not read as a transfer first (it
  does not contain both \<^verbatim>\<open>sends\<close> and \<^verbatim>\<open>to\<close>) and has at least three words
  credits the number read from its third word to every address that occurs as a
  substring of the entry. The reward entry written for the reward amount \<open>R\<close> and an
  address without \<^verbatim>\<open>sends\<close> in it is such an entry: it credits \<open>R\<close> to every
  substring of its text, and \<^verbatim>\<open>Mining\<close> is one, whoever the recipient is. When a
  flush succeeds from pending entries and an address without the character \<^verbatim>\<open>|\<close>,
  the new block's payload splits into the pending entries followed by that reward entry,
  and a balance over the new chain is the balance over the old chain carried through
  the pending entries and then the reward entry.
\<close>

theorem reward_entry_credits_substrings:
  "(sublist ''Mining Reward:'' t \<and> \<not> (sublist ''sends'' t \<and> sublist ''to'' t) \<and> sublist a t
      \<and> 3 \<le> length (py_words t) \<and> pf (py_words t ! 2) = Some amount
      \<and> exact_int bal \<and> exact_int (bal + amount) \<longrightarrow>
      apply_entry pf a bal t = Inr (bal + amount))
   \<and> (\<not> sublist ''sends'' addr \<and> sublist a (reward_transaction R addr)
        \<and> pf (str_int R) = Some (real_of_int R)
        \<and> exact_int bal \<and> exact_int (bal + real_of_int R) \<longrightarrow>
      apply_entry pf a bal (reward_transaction R addr) = Inr (bal + real_of_int R))
   \<and> sublist ''Mining'' (reward_transaction R addr)
   \<and> (mine_pending_transactions H now c addr = Some (Inr c') \<and> pending_transactions c \<noteq> []
        \<and> (\<forall>e\<in>set (pending_transactions c). CHR ''|'' \<notin> set e) \<and> CHR ''|'' \<notin> set addr \<longrightarrow>
      py_split (data (last (chain c'))) '' | ''
        = pending_transactions c @ [reward_transaction (mining_reward c) addr]
      \<and> get_balance pf c' a
        = (case get_balance pf c a of
             Inl e \<Rightarrow> Inl e
           | Inr b0 \<Rightarrow>
               (case balance_entries pf a b0 (pending_transactions c) of
                  Inl e \<Rightarrow> Inl e
                | Inr b1 \<Rightarrow> apply_entry pf a b1 (reward_transaction (mining_reward c) addr))))"
proof (intro conjI impI)
  assume "sublist ''Mining Reward:'' t \<and> \<not> (sublist ''sends'' t \<and> sublist ''to'' t) \<and> sublist a t
      \<and> 3 \<le> length (py_words t) \<and> pf (py_words t ! 2) = Some amount
      \<and> exact_int bal \<and> exact_int (bal + amount)"
  then show "apply_entry pf a bal t = Inr (bal + amount)"
    by (auto simp: apply_entry_def)
next
  assume "\<not> sublist ''sends'' addr \<and> sublist a (reward_transaction R addr)
        \<and> pf (str_int R) = Some (real_of_int R)
        \<and> exact_int bal \<and> exact_int (bal + real_of_int R)"
  then show "apply_entry pf a bal (reward_transaction R addr) = Inr (bal + real_of_int R)"
    using reward_entry_credit[of addr a R pf bal] by blast
next
  show "sublist ''Mining'' (reward_transaction R addr)" by (rule reward_names_Mining)
next
  assume a: "mine_pending_transactions H now c addr = Some (Inr c') \<and> pending_transactions c \<noteq> []
        \<and> (\<forall>e\<in>set (pending_transactions c). CHR ''|'' \<notin> set e) \<and> CHR ''|'' \<notin> set addr"
  then show "py_split (data (last (chain c'))) '' | ''
        = pending_transactions c @ [reward_transaction (mining_reward c) addr]"
    using flushed_entries(1)[of H now c addr c'] by blast
  from a show "get_balance pf c' a
        = (case get_balance pf c a of
             Inl e \<Rightarrow> Inl e
           | Inr b0 \<Rightarrow>
               (case balance_entries pf a b0 (pending_transactions c) of
                  Inl e \<Rightarrow> Inl e
                | Inr b1 \<Rightarrow> apply_entry pf a b1 (reward_transaction (mining_reward c) addr)))"
    using flushed_entries(2)[of H now c addr c' pf a] by blast
qed

lemma exact_int_of_int: "\<bar>k\<bar> \<le> 2 ^ 53 \<Longrightarrow> exact_int (real_of_int k)"
  unfolding exact_int_def by blast

text \<open>
  The theorem at the flush of the demonstration chain: the payload splits into the
  transfer and the reward entry, and \<^verbatim>\<open>Mining\<close> holds 100.
\<close>

theorem reward_entry_credits_substrings_witness:
  "mine_pending_transactions demo_digest 1700000001
      (add_transaction demo_c0 ''A sends 10 coins to B'') ''Miner'' = Some (Inr demo_c1)
   \<and> \<not> sublist ''sends'' ''Miner'' \<and> demo_float (str_int 100) = Some (real_of_int 100)
   \<and> exact_int 0 \<and> exact_int (0 + real_of_int 100)
   \<and> py_split (data (last (chain demo_c1))) '' | ''
       = [''A sends 10 coins to B'', reward_transaction 100 ''Miner'']
   \<and> apply_entry demo_float ''Mining'' 0 (reward_transaction 100 ''Miner'') = Inr 100
   \<and> get_balance demo_float demo_c1 ''Mining'' = Inr 100"
proof -
  let ?q = "add_transaction demo_c0 ''A sends 10 coins to B''"
  have h1: "\<not> sublist ''sends'' ''Miner''" by (simp add: sublist_code)
  have h2: "demo_float (str_int 100) = Some (real_of_int 100)"
    by (simp add: str_int_def digits_of.simps demo_float_def is_digit_def)
  have e0: "exact_int 0" using exact_int_of_int[of 0] by simp
  have e1: "exact_int (0 + real_of_int 100)" using exact_int_of_int[of 100] by simp
  have q: "pending_transactions ?q = [''A sends 10 coins to B'']" "mining_reward ?q = 100"
    "chain ?q = [demo_genesis]"
    by (simp_all add: add_transaction_def demo_c0_def)
  have nb1: "\<forall>e\<in>set (pending_transactions ?q). CHR ''|'' \<notin> set e" by (simp add: q)
  have nb2: "CHR ''|'' \<notin> set ''Miner''" by simp
  note t = reward_entry_credits_substrings[where pf = demo_float and addr = "''Miner''"
      and R = 100 and a = "''Mining''" and bal = 0]
  from t h1 h2 e0 e1
  have e: "apply_entry demo_float ''Mining'' 0 (reward_transaction 100 ''Miner'') = Inr 100"
    by simp
  have ne: "pending_transactions ?q \<noteq> []" by (simp add: q)
  have sp: "py_split (data (last (chain demo_c1))) '' | ''
       = [''A sends 10 coins to B'', reward_transaction 100 ''Miner'']"
    using flushed_entries(1)[OF demo_c1_built ne nb1 nb2] by (simp add: q)
  have g0: "get_balance demo_float ?q ''Mining'' = Inr 0"
    by (simp add: get_balance_def q demo_genesis_def)
  have tr: "apply_entry demo_float ''Mining'' 0 ''A sends 10 coins to B'' = Inr 0"
    using scenario_transfer[of demo_float "''Mining''" 0] demo_float_10 by simp
  have "get_balance demo_float demo_c1 ''Mining'' = Inr 100"
    by (subst flushed_entries(2)[OF demo_c1_built ne nb1 nb2]) (simp add: g0 q tr e)
  with demo_c1_built h1 h2 e0 e1 sp e show ?thesis by blast
qed

text \<open>
  With the reward address \<^verbatim>\<open>sends\<close> the reward entry is read as a transfer from
  \<^verbatim>\<open>Mining\<close>: the balance of \<^verbatim>\<open>Mining\<close> is debited, not credited.
\<close>

theorem reward_to_sends_counterexample:
  "mine_pending_transactions demo_digest 1700000001 (add_transaction demo_c0 ''hello'') ''sends''
     = Some (Inr sends_chain)
   \<and> get_balance demo_float sends_chain ''Mining'' = Inr (- 100)"
proof -
  have sp: "py_split ''hello | Mining Reward: 100 coins to sends'' '' | ''
              = [''hello'', ''Mining Reward: 100 coins to sends'']"
    by (simp add: text_eval)
  have "get_balance demo_float sends_chain ''Mining'' = Inr (- 100)"
    by (simp add: get_balance_def sends_chain_def demo_genesis_def sp apply_entry_def text_eval
        demo_float_def is_digit_def)
  with sends_chain_built show ?thesis by simp
qed

section \<open>Export and load\<close>

text \<open>
  Loading a record that \<^verbatim>\<open>to_dict\<close> wrote gives the block back when its timestamp is
  truthy; the constructor is handed the timestamp and takes the clock for a falsy one.
  Every block of a chain that the operations build has a truthy timestamp, because the
  constructor never stores another.
\<close>

lemmas load_eval = load_block_def bind_err_def get_int_def get_str_def get_number_def to_dict_def

lemma Block_truthy: "now \<noteq> 0 \<Longrightarrow> truthy (timestamp (Block H now i dat p ts))"
  by (cases ts) (simp_all add: Block_def Let_def)

lemma mine_block_truthy:
  assumes "now \<noteq> 0" "mine_block H d (Block H now i dat p ts) = Some nb"
  shows "truthy (timestamp nb)"
  using mine_block_Block[OF assms(2)] Block_truthy[OF assms(1)] by simp

lemma load_block_to_dict:
  "load_block H t (to_dict b)
     = Inr (if truthy (timestamp b) then b else b\<lparr>timestamp := PyFloat t\<rparr>)"
  by (cases "timestamp b") (simp_all add: load_eval Block_def Let_def)

lemma load_block_truthy:
  assumes "t \<noteq> 0" "load_block H t block_data = Inr b"
  shows "truthy (timestamp b)"
proof -
  from assms(2) obtain i d p ts h n where
    "b = (Block H t i d p ts)\<lparr>hash := h, nonce := n\<rparr>"
    by (auto simp: load_block_def bind_err_def Let_def split: sum.splits)
  then show ?thesis using Block_truthy[OF assms(1), of H i d p ts] by simp
qed

lemma load_blocks_truthy:
  assumes "\<forall>k. clock k \<noteq> 0" "\<forall>b\<in>set acc. truthy (timestamp b)"
    "load_blocks H clock k doc acc = (err, blocks)"
  shows "\<forall>b\<in>set blocks. truthy (timestamp b)"
  using assms
proof (induction doc arbitrary: k acc)
  case Nil
  then show ?case by simp
next
  case (Cons block_data doc)
  show ?case
  proof (cases "load_block H (clock k) block_data")
    case (Inl e)
    with Cons.prems show ?thesis by simp
  next
    case (Inr b)
    from Cons.prems(1) have "clock k \<noteq> 0" by simp
    from load_block_truthy[OF this Inr] Cons.prems(2)
    have acc: "\<forall>x\<in>set (acc @ [b]). truthy (timestamp x)" by simp
    from Cons.prems(3) Inr have "load_blocks H clock (Suc k) doc (acc @ [b]) = (err, blocks)"
      by simp
    from Cons.IH[OF Cons.prems(1) acc this] show ?thesis .
  qed
qed

lemma reachable_truthy:
  assumes "reachable H c"
  shows "\<forall>b\<in>set (chain c). truthy (timestamp b)"
  using assms
proof (induction rule: reachable.induct)
  case (constructed now d c)
  then show ?case
    using mine_block_truthy[of now H d 0 "''Genesis Block - The beginning of BlockSim''" "''0''" None]
    by (auto simp: Blockchain_def create_genesis_block_def split: option.splits)
next
  case (queued c t)
  then show ?case by (simp add: add_transaction_def)
next
  case (flushed c now addr c')
  then show ?case
    using mine_block_truthy[of now H "difficulty c" "int (length (chain c))"
        "py_join '' | '' (pending_transactions c @ [reward_transaction (mining_reward c) addr])"
        "hash (last (chain c))" None]
    by (auto simp: mine_pending_transactions_def get_latest_block_def Let_def
        split: option.splits if_splits)
next
  case (appended c now dat c')
  then show ?case
    using mine_block_truthy[of now H "difficulty c" "int (length (chain c))" dat
        "hash (last (chain c))" None]
    by (auto simp: add_block_direct_def get_latest_block_def split: option.splits if_splits)
next
  case (tampered c i dat m c')
  show ?case
  proof (cases "0 \<le> i \<and> i < int (length (chain c))")
    case True
    with tampered have c': "chain c' = (chain c)[nat i := (chain c ! nat i)\<lparr>data := dat\<rparr>]"
      by (auto simp: tamper_with_block_def)
    from True have "chain c ! nat i \<in> set (chain c)" by (intro nth_mem) linarith
    with tampered.IH have "truthy (timestamp ((chain c ! nat i)\<lparr>data := dat\<rparr>))"
      by simp
    with tampered.IH show ?thesis unfolding c'
      by (auto dest: set_update_subset_insert[THEN subsetD])
  next
    case False
    with tampered show ?thesis by (auto simp: tamper_with_block_def)
  qed
next
  case (loaded now clock ex doc err ex' c')
  from loaded(3) obtain bc blocks where
    l: "load_blocks H clock 0 doc [] = (err, blocks)"
       "ex' = ex\<lparr>blockchain := Some (bc\<lparr>chain := blocks\<rparr>)\<rparr>"
    by (auto simp: load_blockchain_def split: option.splits prod.splits)
  from load_blocks_truthy[OF loaded(2) _ l(1)] have "\<forall>b\<in>set blocks. truthy (timestamp b)"
    by simp
  with l(2) loaded(4) show ?case by auto
qed

lemma load_blocks_export:
  assumes "\<forall>b\<in>set bs. truthy (timestamp b)"
  shows "load_blocks H clock k (map to_dict bs) acc = (None, acc @ bs)"
  using assms by (induction bs arbitrary: k acc) (simp_all add: load_block_to_dict)

text \<open>
  C9. For every chain that the operations can build, tampered or not, loading the
  export gives back the same block sequence, equal in all six fields of every block,
  stale digests included, and validation answers on the loaded chain what it answers on
  the original. No record is refused, and the load returns whenever the digest function
  is solvable at difficulty 2, the difficulty of the chain the loader constructs first.
\<close>

theorem export_load_roundtrip:
  assumes "reachable H c"
  shows "(\<forall>r. load_blockchain H now clock ex (export_chain c) = Some r \<longrightarrow>
            (\<exists>bc. r = (None, ex\<lparr>blockchain := Some bc\<rparr>)
               \<and> chain bc = chain c
               \<and> is_chain_valid H bc = is_chain_valid H c))
         \<and> (solvable H 2 \<longrightarrow> load_blockchain H now clock ex (export_chain c) \<noteq> None)"
proof (intro conjI allI impI)
  note t = reachable_truthy[OF assms]
  fix r assume "load_blockchain H now clock ex (export_chain c) = Some r"
  then obtain g where "r = (None, ex\<lparr>blockchain := Some (g\<lparr>chain := chain c\<rparr>)\<rparr>)"
    using t by (auto simp: load_blockchain_def export_chain_def load_blocks_export
        split: option.splits)
  then show "\<exists>bc. r = (None, ex\<lparr>blockchain := Some bc\<rparr>) \<and> chain bc = chain c
               \<and> is_chain_valid H bc = is_chain_valid H c"
    by (intro exI[of _ "g\<lparr>chain := chain c\<rparr>"]) (simp add: is_chain_valid_def)
next
  assume "solvable H 2"
  from Blockchain_total[OF this, of now]
  show "load_blockchain H now clock ex (export_chain c) \<noteq> None"
    by (auto simp: load_blockchain_def split: prod.splits)
qed

lemma tampered_c1_reachable: "reachable demo_digest tampered_c1"
proof -
  have "reachable demo_digest demo_c0"
    by (rule reachable.constructed[OF _ demo_c0_built]) simp
  then have "reachable demo_digest (add_transaction demo_c0 ''A sends 10 coins to B'')"
    by (rule reachable.queued)
  then have "reachable demo_digest demo_c1"
    by (rule reachable.flushed[OF _ _ demo_c1_built]) simp
  moreover have "tamper_with_block demo_c1 1 ''X'' = (TamperingWithBlock 1, tampered_c1)"
    by (simp add: tamper_with_block_def tampered_c1_def demo_c1_def)
  ultimately show ?thesis by (rule reachable.tampered)
qed

text \<open>
  The theorem at the tampered demonstration chain: it is invalid before the round trip
  and after.
\<close>

theorem export_load_roundtrip_witness:
  "reachable demo_digest tampered_c1 \<and> solvable demo_digest 2
   \<and> \<not> is_chain_valid demo_digest tampered_c1
   \<and> (\<exists>bc. load_blockchain demo_digest 1700000005 (\<lambda>k. 1700000100) \<lparr>blockchain = None\<rparr>
              (export_chain tampered_c1) = Some (None, \<lparr>blockchain = Some bc\<rparr>)
         \<and> chain bc = chain tampered_c1 \<and> \<not> is_chain_valid demo_digest bc)"
proof -
  have s: "solvable demo_digest 2" by (rule demo_digest_solvable) simp_all
  have nv: "\<not> is_chain_valid demo_digest tampered_c1"
    by (simp add: is_chain_valid_def tampered_c1_def demo_genesis_def demo_block1_def
        calculate_hash_def demo_digest_def weight_def hex_digit_def Let_def)
  note t = export_load_roundtrip[OF tampered_c1_reachable, of 1700000005 "\<lambda>k. 1700000100"
      "\<lparr>blockchain = None\<rparr>"]
  from t s obtain r where
    r: "load_blockchain demo_digest 1700000005 (\<lambda>k. 1700000100) \<lparr>blockchain = None\<rparr>
          (export_chain tampered_c1) = Some r" by blast
  with t obtain bc where
    "r = (None, \<lparr>blockchain = None\<rparr>\<lparr>blockchain := Some bc\<rparr>)" "chain bc = chain tampered_c1"
    "is_chain_valid demo_digest bc = is_chain_valid demo_digest tampered_c1" by blast
  with r nv s tampered_c1_reachable show ?thesis by auto
qed

end
